theory Spec2Isabelle
  imports Main "HOL-Library.Sublist"
begin

section \<open>Characters and strings\<close>

text \<open>
  Python strings are sequences of Unicode code points. The model works with the code
  points below 256 (one \<^typ>\<open>char\<close> each) and gives Python's character classes
  on that range: \<^verbatim>\<open>str.isspace\<close> and the \<^verbatim>\<open>\s\<close> of \<^verbatim>\<open>re\<close> agree there,
  \<^verbatim>\<open>\w\<close> is an alphanumeric code point or the underscore, and \<^verbatim>\<open>str.lower\<close>
  works code point by code point.
\<close>

definition code :: "char \<Rightarrow> nat" where
  "code c = of_char c"

definition isspace :: "char \<Rightarrow> bool" where
  "isspace c = (let n = code c in
     (9 \<le> n \<and> n \<le> 13) \<or> (28 \<le> n \<and> n \<le> 32) \<or> n = 133 \<or> n = 160)"

definition isalnum :: "char \<Rightarrow> bool" where
  "isalnum c = (let n = code c in
     (48 \<le> n \<and> n \<le> 57) \<or> (65 \<le> n \<and> n \<le> 90) \<or> (97 \<le> n \<and> n \<le> 122) \<or>
     n = 170 \<or> n = 178 \<or> n = 179 \<or> n = 181 \<or> n = 185 \<or> n = 186 \<or>
     (188 \<le> n \<and> n \<le> 190) \<or> (192 \<le> n \<and> n \<le> 214) \<or>
     (216 \<le> n \<and> n \<le> 246) \<or> (248 \<le> n \<and> n \<le> 255))"

definition is_word :: "char \<Rightarrow> bool" where
  "is_word c = (isalnum c \<or> c = CHR ''_'')"

definition isupper :: "char \<Rightarrow> bool" where
  "isupper c = (let n = code c in
     (65 \<le> n \<and> n \<le> 90) \<or> (192 \<le> n \<and> n \<le> 214) \<or> (216 \<le> n \<and> n \<le> 222))"

definition lower_char :: "char \<Rightarrow> char" where
  "lower_char c = (if isupper c then char_of (code c + 32) else c)"

definition lower :: "string \<Rightarrow> string" where
  "lower s = map lower_char s"

text \<open>
  Column names are sequences of code points without the bound of 256: the link column of
  an engine is named by the title case of the engine id, which can lie beyond it.
\<close>

type_synonym name = "nat list"

definition codes :: "string \<Rightarrow> name" where
  "codes s = map code s"

text \<open>\<^verbatim>\<open>str.split()\<close>: the maximal runs of non-whitespace, in order.\<close>

fun split_from :: "string \<Rightarrow> string \<Rightarrow> string list" where
  "split_from cur [] = (if cur = [] then [] else [cur])"
| "split_from cur (c # cs) =
     (if isspace c then (if cur = [] then split_from [] cs else cur # split_from [] cs)
      else split_from (cur @ [c]) cs)"

definition split :: "string \<Rightarrow> string list" where
  "split s = split_from [] s"

text \<open>\<^verbatim>\<open>' '.join(words)\<close>.\<close>

fun join :: "string list \<Rightarrow> string" where
  "join [] = []"
| "join [w] = w"
| "join (w # ws) = w @ CHR '' '' # join ws"

text \<open>\<^verbatim>\<open>str.strip()\<close>: leading and trailing whitespace removed.\<close>

definition lstrip :: "string \<Rightarrow> string" where
  "lstrip s = dropWhile isspace s"

definition rstrip :: "string \<Rightarrow> string" where
  "rstrip s = rev (dropWhile isspace (rev s))"

definition strip :: "string \<Rightarrow> string" where
  "strip s = rstrip (lstrip s)"

section \<open>Text normalizer: \<^verbatim>\<open>clean_text\<close>\<close>

text \<open>
  \<^verbatim>\<open>re.sub(r'[\(\[\{].*?[\)\]\}]', '', text)\<close>. At an opening bracket the pattern
  matches up to the nearest closing bracket of any kind, provided no newline lies in
  between (the dot does not match a newline); the match is deleted and the scan goes on
  behind it. Where there is no match the character is kept.
\<close>

definition is_open :: "char \<Rightarrow> bool" where
  "is_open c = (c = CHR ''('' \<or> c = CHR ''['' \<or> c = CHR ''{'')"

definition is_close :: "char \<Rightarrow> bool" where
  "is_close c = (c = CHR '')'' \<or> c = CHR '']'' \<or> c = CHR ''}'')"

fun find_close :: "string \<Rightarrow> string option" where
  "find_close [] = None"
| "find_close (c # cs) =
     (if is_close c then Some cs
      else if c = CHR 0x0A then None
      else find_close cs)"

lemma find_close_length: "find_close cs = Some r \<Longrightarrow> length r < length cs"
  by (induction cs) (auto split: if_splits)

function remove_brackets :: "string \<Rightarrow> string" where
  "remove_brackets [] = []"
| "remove_brackets (c # cs) =
     (if is_open c then
        (case find_close cs of
           Some r \<Rightarrow> remove_brackets r
         | None \<Rightarrow> c # remove_brackets cs)
      else c # remove_brackets cs)"
  by pat_completeness auto
termination
  by (relation "measure length") (auto dest: find_close_length)

text \<open>\<^verbatim>\<open>re.sub(r'[^\w\s\-]', ' ', text)\<close>: every other character becomes a space.\<close>

definition replace_special :: "char \<Rightarrow> char" where
  "replace_special c = (if is_word c \<or> isspace c \<or> c = CHR ''-'' then c else CHR '' '')"

text \<open>\<^verbatim>\<open>re.sub(r'\s+', ' ', text)\<close>: every maximal run of whitespace becomes one space.\<close>

function collapse_spaces :: "string \<Rightarrow> string" where
  "collapse_spaces [] = []"
| "collapse_spaces (c # cs) =
     (if isspace c then CHR '' '' # collapse_spaces (dropWhile isspace cs)
      else c # collapse_spaces cs)"
  by pat_completeness auto
termination
  by (relation "measure length") (auto simp: length_dropWhile_le less_Suc_eq_le)

text \<open>
  A cell of the table is a string or missing (\<^verbatim>\<open>None\<close>, \<^verbatim>\<open>NaN\<close>); the guard
  \<^verbatim>\<open>pd.isna(text) or not text\<close> sends a missing cell and the empty string to \<^verbatim>\<open>""\<close>.
\<close>

type_synonym cell = "string option"

definition clean_text :: "cell \<Rightarrow> string" where
  "clean_text text =
     (case text of
        None \<Rightarrow> []
      | Some s \<Rightarrow>
          if s = [] then []
          else strip (collapse_spaces (map replace_special (remove_brackets (lower s)))))"

section \<open>Configuration\<close>

text \<open>
  The values of the registry are \<^verbatim>\<open>str.format\<close> templates. The model keeps a template
  parsed: a sequence of literal pieces and \<^verbatim>\<open>{query}\<close> fields.
\<close>

datatype piece = Lit string | Query

type_synonym template = "piece list"

record config =
  artist_columns :: "name list"
  title_columns :: "name list"
  max_keywords :: int
  search_engines :: "string \<rightharpoonup> template"
  default_search_engine :: string
  stopwords :: "string list"

definition DEFAULT_CONFIG :: config where
  "DEFAULT_CONFIG = \<lparr>
     artist_columns = map codes [''Artist'', ''artist'', ''Artist Name'', ''artist_name''],
     title_columns =
       map codes [''Title'', ''title'', ''Album'', ''album'', ''Release Title'', ''release_title''],
     max_keywords = 5,
     search_engines = map_of [
       (''wikipedia'', [Lit ''https://en.wikipedia.org/wiki/Special:Search?search='', Query]),
       (''spotify'', [Lit ''https://open.spotify.com/search/'', Query]),
       (''youtube'', [Lit ''https://www.youtube.com/results?search_query='', Query]),
       (''discogs'', [Lit ''https://www.discogs.com/search/?q='', Query]),
       (''allmusic'', [Lit ''https://www.allmusic.com/search/all/'', Query]),
       (''musicbrainz'', [Lit ''https://musicbrainz.org/search?query='', Query, Lit ''&type=release''])],
     default_search_engine = ''wikipedia'',
     stopwords = [
       ''the'', ''a'', ''an'', ''of'', ''and'', ''is'', ''are'', ''was'', ''were'', ''at'', ''on'', ''in'',
       ''to'', ''for'', ''with'', ''without'', ''how'', ''do'', ''does'', ''did'', ''i'', ''am'', ''be'',
       ''by'', ''from'', ''that'', [CHR ''i'', CHR ''t'', CHR 0x27, CHR ''s''], ''its'', ''you'', ''we'',
       ''this'', ''those'', ''these'',
       ''as'', ''up'', ''out'', ''off'', ''will'', ''my'', ''your'', ''our'', ''not'', ''yes'', ''no'',
       ''vol'', ''volume'', ''part'', ''feat'', ''featuring'', ''original'', ''soundtrack'', ''ost'',
       ''single'', ''ep'', ''lp'', ''cd'', ''vinyl'', ''remaster'', ''remastered'', ''deluxe'', ''edition'']
   \<rparr>"

text \<open>\<^verbatim>\<open>self.stopwords\<close>, set up by the constructor.\<close>

definition processor_stopwords :: "config \<Rightarrow> string set" where
  "processor_stopwords cfg = set (map lower (stopwords cfg))"

section \<open>Keyword extractor: \<^verbatim>\<open>generate_keywords\<close>\<close>

text \<open>
  The first two loops: a word is appended when it is no stopword, not yet in the list
  and longer than one character.
\<close>

fun keep_words :: "string set \<Rightarrow> string list \<Rightarrow> string list \<Rightarrow> string list" where
  "keep_words sw acc [] = acc"
| "keep_words sw acc (word # rest) =
     keep_words sw
       (if word \<notin> sw \<and> word \<notin> set acc \<and> length word > 1 then acc @ [word] else acc) rest"

text \<open>The loop over \<^verbatim>\<open>artist_words[:2]\<close>.\<close>

fun add_artist_words :: "int \<Rightarrow> string list \<Rightarrow> string list \<Rightarrow> string list" where
  "add_artist_words max_words combined [] = combined"
| "add_artist_words max_words combined (word # rest) =
     add_artist_words max_words
       (if int (length combined) < max_words then combined @ [word] else combined) rest"

text \<open>The loop over \<^verbatim>\<open>title_words\<close>, left by \<^verbatim>\<open>break\<close> once the list is full.\<close>

fun fill_title_words :: "int \<Rightarrow> string list \<Rightarrow> string list \<Rightarrow> string list" where
  "fill_title_words max_words combined [] = combined"
| "fill_title_words max_words combined (word # rest) =
     (if int (length combined) \<ge> max_words then combined
      else fill_title_words max_words
             (if word \<notin> set combined then combined @ [word] else combined) rest)"

text \<open>\<^verbatim>\<open>max_words or self.config["max_keywords"]\<close>: \<^verbatim>\<open>None\<close> and \<^verbatim>\<open>0\<close> are falsy.\<close>

definition effective_max :: "config \<Rightarrow> int option \<Rightarrow> int" where
  "effective_max cfg max_words =
     (case max_words of
        None \<Rightarrow> max_keywords cfg
      | Some n \<Rightarrow> if n = 0 then max_keywords cfg else n)"

definition various_markers :: "string list" where
  "various_markers = [''various'', ''va'', ''compilation'']"

text \<open>The words kept from a cleaned field, by the loop above.\<close>

definition filtered_words :: "config \<Rightarrow> cell \<Rightarrow> string list" where
  "filtered_words cfg text = keep_words (processor_stopwords cfg) [] (split (clean_text text))"

definition artist_words_of :: "config \<Rightarrow> cell \<Rightarrow> string list" where
  "artist_words_of cfg artist =
     (let artist_words = filtered_words cfg artist
      in if list_ex (\<lambda>word. word \<in> set various_markers) artist_words then [] else artist_words)"

definition title_words_of :: "config \<Rightarrow> cell \<Rightarrow> string list" where
  "title_words_of cfg title = filtered_words cfg title"

definition combined_words :: "config \<Rightarrow> cell \<Rightarrow> cell \<Rightarrow> int option \<Rightarrow> string list" where
  "combined_words cfg artist title max_words =
     (let mw = effective_max cfg max_words;
          artist_words = artist_words_of cfg artist;
          title_words = title_words_of cfg title;
          combined = add_artist_words mw [] (take 2 artist_words)
      in fill_title_words mw combined title_words)"

definition generate_keywords :: "config \<Rightarrow> cell \<Rightarrow> cell \<Rightarrow> int option \<Rightarrow> string" where
  "generate_keywords cfg artist title max_words = join (combined_words cfg artist title max_words)"

section \<open>The table\<close>

text \<open>
  A \<^verbatim>\<open>DataFrame\<close> is kept column by column, in column order: each column name with
  the cells of that column, one per record. Several columns can have one name.
\<close>

type_synonym dataframe = "(name \<times> cell list) list"

definition columns :: "dataframe \<Rightarrow> name list" where
  "columns df = map fst df"

text \<open>
  \<^verbatim>\<open>df[name]\<close> and \<^verbatim>\<open>row[name]\<close>: the column of that name, as a \<^verbatim>\<open>Series\<close>; where
  several columns share the name, all of them, as a \<^verbatim>\<open>DataFrame\<close> (in a row, a
  \<^verbatim>\<open>Series\<close> of their cells); where no column has the name, a \<^verbatim>\<open>KeyError\<close>.
\<close>

datatype selection = Missing | Series "cell list" | Frame "cell list list"

definition matching :: "dataframe \<Rightarrow> name \<Rightarrow> cell list list" where
  "matching df name = map snd (filter (\<lambda>(n, vs). n = name) df)"

definition get_column :: "dataframe \<Rightarrow> name \<Rightarrow> selection" where
  "get_column df name =
     (case matching df name of
        [] \<Rightarrow> Missing
      | [vs] \<Rightarrow> Series vs
      | vs # others \<Rightarrow> Frame (vs # others))"

text \<open>
  \<^verbatim>\<open>df[name] = values\<close> for a \<^verbatim>\<open>Series\<close> of values: every column of that name is
  replaced where it stands; where there is none, a new column is appended at the end.
\<close>

definition set_column :: "name \<Rightarrow> cell list \<Rightarrow> dataframe \<Rightarrow> dataframe" where
  "set_column name vs df =
     (if name \<in> set (columns df)
      then map (\<lambda>(n, old). if n = name then (n, vs) else (n, old)) df
      else df @ [(name, vs)])"

section \<open>Column detector: \<^verbatim>\<open>detect_columns\<close>\<close>

text \<open>Each of the two loops: the first candidate that is a column, found by \<^verbatim>\<open>break\<close>.\<close>

fun first_column :: "name list \<Rightarrow> name list \<Rightarrow> name option" where
  "first_column cols [] = None"
| "first_column cols (col_name # rest) =
     (if col_name \<in> set cols then Some col_name else first_column cols rest)"

definition detect_columns :: "config \<Rightarrow> dataframe \<Rightarrow> name option \<times> name option" where
  "detect_columns cfg df =
     (first_column (columns df) (artist_columns cfg),
      first_column (columns df) (title_columns cfg))"

section \<open>Link builder: \<^verbatim>\<open>generate_search_links\<close>\<close>

text \<open>
  \<^verbatim>\<open>urllib.parse.quote_plus\<close>: a space becomes \<^verbatim>\<open>+\<close>, the ASCII letters, digits and
  \<^verbatim>\<open>_.-~\<close> stay, and every other character becomes \<^verbatim>\<open>%XX\<close> for each byte of its
  UTF-8 encoding.
\<close>

definition is_unreserved :: "char \<Rightarrow> bool" where
  "is_unreserved c = (let n = code c in
     (48 \<le> n \<and> n \<le> 57) \<or> (65 \<le> n \<and> n \<le> 90) \<or> (97 \<le> n \<and> n \<le> 122) \<or>
     c = CHR ''_'' \<or> c = CHR ''.'' \<or> c = CHR ''-'' \<or> c = CHR ''~'')"

definition hex_digit :: "nat \<Rightarrow> char" where
  "hex_digit d = (if d < 10 then char_of (48 + d) else char_of (55 + d))"

definition percent :: "nat \<Rightarrow> string" where
  "percent b = [CHR ''%'', hex_digit (b div 16), hex_digit (b mod 16)]"

definition utf8 :: "char \<Rightarrow> nat list" where
  "utf8 c = (let n = code c in if n < 128 then [n] else [192 + n div 64, 128 + n mod 64])"

definition quote_char :: "char \<Rightarrow> string" where
  "quote_char c =
     (if c = CHR '' '' then ''+''
      else if is_unreserved c then [c]
      else concat (map percent (utf8 c)))"

definition quote_plus :: "string \<Rightarrow> string" where
  "quote_plus s = concat (map quote_char s)"

text \<open>\<^verbatim>\<open>url_template.format(query=query)\<close>.\<close>

fun format_piece :: "string \<Rightarrow> piece \<Rightarrow> string" where
  "format_piece query (Lit s) = s"
| "format_piece query Query = query"

definition format_query :: "template \<Rightarrow> string \<Rightarrow> string" where
  "format_query url_template query = concat (map (format_piece query) url_template)"

text \<open>
  The loop over the engines: the dictionary of links and the warnings given to the logger
  so far are passed along.
\<close>

fun links_loop ::
  "config \<Rightarrow> string \<Rightarrow> string list \<Rightarrow> (string \<rightharpoonup> string) \<Rightarrow> string list
     \<Rightarrow> (string \<rightharpoonup> string) \<times> string list" where
  "links_loop cfg query [] links warnings = (links, warnings)"
| "links_loop cfg query (engine # rest) links warnings =
     (case search_engines cfg engine of
        Some url_template \<Rightarrow>
          links_loop cfg query rest (links(engine \<mapsto> format_query url_template query)) warnings
      | None \<Rightarrow>
          links_loop cfg query rest links (warnings @ [''Unknown search engine: '' @ engine]))"

text \<open>\<^verbatim>\<open>if not search_engines\<close>: \<^verbatim>\<open>None\<close> and the empty list give the default engine.\<close>

definition requested_engines :: "config \<Rightarrow> string list option \<Rightarrow> string list" where
  "requested_engines cfg engines =
     (case engines of
        None \<Rightarrow> [default_search_engine cfg]
      | Some es \<Rightarrow> if es = [] then [default_search_engine cfg] else es)"

definition generate_search_links ::
  "config \<Rightarrow> string \<Rightarrow> string list option \<Rightarrow> (string \<rightharpoonup> string) \<times> string list" where
  "generate_search_links cfg keywords engines =
     links_loop cfg (quote_plus keywords) (requested_engines cfg engines) Map.empty []"

section \<open>Record pipeline: \<^verbatim>\<open>process_dataframe\<close>\<close>

text \<open>
  \<^verbatim>\<open>str.title()\<close>: a character that follows a cased character is lowered, any other
  character is put in title case. The title case of a character is given by its code
  points: one for most characters, two (\<^verbatim>\<open>Ss\<close>) for the sharp s (223), and one beyond
  255 for the micro sign (181) and for the y with diaeresis (255).
\<close>

definition iscased :: "char \<Rightarrow> bool" where
  "iscased c = (let n = code c in
     (65 \<le> n \<and> n \<le> 90) \<or> (97 \<le> n \<and> n \<le> 122) \<or> n = 170 \<or> n = 181 \<or> n = 186 \<or>
     (192 \<le> n \<and> n \<le> 214) \<or> (216 \<le> n \<and> n \<le> 246) \<or> (248 \<le> n \<and> n \<le> 255))"

definition title_char :: "char \<Rightarrow> name" where
  "title_char c = (let n = code c in
     if (97 \<le> n \<and> n \<le> 122) \<or> (224 \<le> n \<and> n \<le> 246) \<or> (248 \<le> n \<and> n \<le> 254)
     then [n - 32]
     else if n = 181 then [924]
     else if n = 223 then [83, 115]
     else if n = 255 then [376]
     else [n])"

fun title_from :: "bool \<Rightarrow> string \<Rightarrow> name" where
  "title_from previous_cased [] = []"
| "title_from previous_cased (c # cs) =
     (if previous_cased then [code (lower_char c)] else title_char c) @ title_from (iscased c) cs"

definition str_title :: "string \<Rightarrow> name" where
  "str_title s = title_from False s"

text \<open>The name of an engine's link column, \<^verbatim>\<open>f'{engine.title()}_Link'\<close>.\<close>

definition link_name :: "string \<Rightarrow> name" where
  "link_name engine = str_title engine @ codes ''_Link''"

text \<open>
  What \<^verbatim>\<open>process_dataframe\<close> can raise. Its own three \<^verbatim>\<open>ValueError\<close>s: the first
  one carries the list of the available columns in its message, the other two the name
  of the missing column. The \<^verbatim>\<open>KeyError\<close> of a read of a missing column and the
  \<^verbatim>\<open>IndexError\<close> of an index out of range. And where a name that several columns share
  selects more than one column: the \<^verbatim>\<open>ValueError\<close> of pandas for the truth value of a
  \<^verbatim>\<open>Series\<close>, raised by the guard of \<^verbatim>\<open>clean_text\<close>; the \<^verbatim>\<open>TypeError\<close> of
  \<^verbatim>\<open>quote_plus\<close>, also raised for a missing cell; the \<^verbatim>\<open>ValueError\<close> of pandas for a
  \<^verbatim>\<open>DataFrame\<close> assigned to a single column.
\<close>

datatype error =
    ColumnsNotFound "name list"
  | ArtistColumnNotFound name
  | TitleColumnNotFound name
  | KeyError name
  | IndexError
  | AmbiguousSeries
  | TypeError
  | FrameAssigned

text \<open>
  The table is changed in place: the outcome of a call is the table as the call leaves it
  and the exception raised, if any. The messages for the logger are not part of the
  outcome.
\<close>

record outcome =
  frame :: dataframe
  raised :: "error option"

text \<open>\<^verbatim>\<open>not x\<close> and \<^verbatim>\<open>x or y\<close> on optional column names.\<close>

definition truthy :: "name option \<Rightarrow> bool" where
  "truthy x = (case x of None \<Rightarrow> False | Some s \<Rightarrow> s \<noteq> [])"

definition py_or :: "name option \<Rightarrow> name option \<Rightarrow> name option" where
  "py_or x y = (if truthy x then x else y)"

definition resolve_columns ::
  "config \<Rightarrow> dataframe \<Rightarrow> name option \<Rightarrow> name option \<Rightarrow> name option \<times> name option" where
  "resolve_columns cfg df artist_col title_col =
     (if \<not> truthy artist_col \<or> \<not> truthy title_col then
        (let (detected_artist, detected_title) = detect_columns cfg df
         in (py_or artist_col detected_artist, py_or title_col detected_title))
      else (artist_col, title_col))"

text \<open>The three checks that raise \<^verbatim>\<open>ValueError\<close>.\<close>

definition check_columns ::
  "dataframe \<Rightarrow> name option \<Rightarrow> name option \<Rightarrow> error + name \<times> name" where
  "check_columns df artist_col title_col =
     (if \<not> truthy artist_col \<or> \<not> truthy title_col then Inl (ColumnsNotFound (columns df))
      else case (artist_col, title_col) of
        (Some a, Some t) \<Rightarrow>
          if a \<notin> set (columns df) then Inl (ArtistColumnNotFound a)
          else if t \<notin> set (columns df) then Inl (TitleColumnNotFound t)
          else Inr (a, t)
      | _ \<Rightarrow> Inl (ColumnsNotFound (columns df)))"

text \<open>
  \<^verbatim>\<open>df.apply(lambda row: self.generate_keywords(row[artist_col], row[title_col]), axis=1)\<close>.
  Where the artist or the title name is shared by several columns, the row gives a
  \<^verbatim>\<open>Series\<close> of cells and the guard \<^verbatim>\<open>pd.isna(text) or not text\<close> raises.
\<close>

definition keywords_column :: "config \<Rightarrow> dataframe \<Rightarrow> name \<Rightarrow> name \<Rightarrow> error + cell list" where
  "keywords_column cfg df artist_col title_col =
     (case get_column df artist_col of
        Missing \<Rightarrow> Inl (KeyError artist_col)
      | Frame several \<Rightarrow> Inl AmbiguousSeries
      | Series artists \<Rightarrow>
          (case get_column df title_col of
             Missing \<Rightarrow> Inl (KeyError title_col)
           | Frame several \<Rightarrow> Inl AmbiguousSeries
           | Series titles \<Rightarrow>
               Inr (map (\<lambda>(artist, title). Some (generate_keywords cfg artist title None))
                      (zip artists titles))))"

text \<open>
  \<^verbatim>\<open>df['Keywords'].apply(lambda kw: self.generate_search_links(kw, [engine]).get(engine, ''))\<close>;
  a missing cell makes \<^verbatim>\<open>quote_plus\<close> raise.
\<close>

fun link_cells :: "config \<Rightarrow> string \<Rightarrow> cell list \<Rightarrow> error + cell list" where
  "link_cells cfg engine [] = Inr []"
| "link_cells cfg engine (None # rest) = Inl TypeError"
| "link_cells cfg engine (Some kw # rest) =
     (let links = fst (generate_search_links cfg kw (Some [engine]));
          link = (case links engine of Some url \<Rightarrow> url | None \<Rightarrow> [])
      in case link_cells cfg engine rest of
           Inl e \<Rightarrow> Inl e
         | Inr cells \<Rightarrow> Inr (Some link # cells))"

text \<open>
  The loop over the requested engines, one column each. Where several columns are named
  \<^verbatim>\<open>Keywords\<close>, the function is applied to a whole column and \<^verbatim>\<open>quote_plus\<close> raises.
\<close>

fun add_link_columns :: "config \<Rightarrow> string list \<Rightarrow> dataframe \<Rightarrow> outcome" where
  "add_link_columns cfg [] df = \<lparr>frame = df, raised = None\<rparr>"
| "add_link_columns cfg (engine # rest) df =
     (case get_column df (codes ''Keywords'') of
        Missing \<Rightarrow> \<lparr>frame = df, raised = Some (KeyError (codes ''Keywords''))\<rparr>
      | Frame several \<Rightarrow> \<lparr>frame = df, raised = Some TypeError\<rparr>
      | Series kws \<Rightarrow>
          (case link_cells cfg engine kws of
             Inl e \<Rightarrow> \<lparr>frame = df, raised = Some e\<rparr>
           | Inr cells \<Rightarrow> add_link_columns cfg rest (set_column (link_name engine) cells df)))"

text \<open>
  The primary link: \<^verbatim>\<open>df['Search_Link'] = df[f'{primary_engine.title()}_Link']\<close> with
  \<^verbatim>\<open>primary_engine = search_engines[0]\<close>.
\<close>

definition add_search_link :: "string list \<Rightarrow> dataframe \<Rightarrow> outcome" where
  "add_search_link engines df =
     (case engines of
        [] \<Rightarrow> \<lparr>frame = df, raised = Some IndexError\<rparr>
      | primary_engine # rest \<Rightarrow>
          (case get_column df (link_name primary_engine) of
             Missing \<Rightarrow> \<lparr>frame = df, raised = Some (KeyError (link_name primary_engine))\<rparr>
           | Frame several \<Rightarrow> \<lparr>frame = df, raised = Some FrameAssigned\<rparr>
           | Series links \<Rightarrow>
               \<lparr>frame = set_column (codes ''Search_Link'') links df, raised = None\<rparr>))"

definition process_dataframe ::
  "config \<Rightarrow> dataframe \<Rightarrow> name option \<Rightarrow> name option \<Rightarrow> string list option \<Rightarrow> outcome" where
  "process_dataframe cfg df artist_col title_col engines =
     (let (artist_col, title_col) = resolve_columns cfg df artist_col title_col
      in case check_columns df artist_col title_col of
           Inl e \<Rightarrow> \<lparr>frame = df, raised = Some e\<rparr>
         | Inr (artist_col, title_col) \<Rightarrow>
             (case keywords_column cfg df artist_col title_col of
                Inl e \<Rightarrow> \<lparr>frame = df, raised = Some e\<rparr>
              | Inr keywords \<Rightarrow>
                  (let df1 = set_column (codes ''Keywords'') keywords df;
                       search_engines = requested_engines cfg engines;
                       linked = add_link_columns cfg search_engines df1
                   in case raised linked of
                        Some e \<Rightarrow> linked
                      | None \<Rightarrow> add_search_link search_engines (frame linked))))"

section \<open>Properties, stated\<close>

text \<open>
  A detected column is the first candidate, in list order, that the schema has, and
  there is none exactly when no candidate is in the schema.
\<close>

definition first_present :: "name set \<Rightarrow> name list \<Rightarrow> name option \<Rightarrow> bool" where
  "first_present schema candidates result =
     (case result of
        None \<Rightarrow> \<forall>c\<in>set candidates. c \<notin> schema
      | Some c \<Rightarrow> \<exists>i<length candidates. candidates ! i = c \<and> c \<in> schema \<and>
                    (\<forall>j<i. candidates ! j \<notin> schema))"

text \<open>Tables used as examples: the export formats shown with the program.\<close>

definition discogs :: dataframe where
  "discogs = [(codes ''Artist'', [Some ''Queen'', Some ''Nirvana'']),
              (codes ''Title'', [Some ''A Night at the Opera'', Some ''Nevermind''])]"

definition custom :: dataframe where
  "custom = [(codes ''Band Name'', [Some ''Led Zeppelin'']),
             (codes ''Album Title'', [Some ''Physical Graffiti''])]"

definition lastfm :: dataframe where
  "lastfm = [(codes ''artist'', [Some ''radiohead'']),
             (codes ''album'', [Some ''ok computer'']),
             (codes ''playcount'', [Some ''156''])]"

text \<open>
  A token, as \<^verbatim>\<open>split\<close> returns it: not empty and free of whitespace.
\<close>

definition good_word :: "string \<Rightarrow> bool" where
  "good_word w = (w \<noteq> [] \<and> list_all (\<lambda>c. \<not> isspace c) w)"

text \<open>The elements of a list in the order in which they are first seen, each one once.\<close>

fun first_seen :: "'a list \<Rightarrow> 'a list" where
  "first_seen [] = []"
| "first_seen (x # xs) = x # filter (\<lambda>y. y \<noteq> x) (first_seen xs)"

text \<open>The test of the filtering loops on a single word, apart from the duplicates.\<close>

definition keepable :: "string set \<Rightarrow> string \<Rightarrow> bool" where
  "keepable sw word = (word \<notin> sw \<and> length word > 1)"

text \<open>
  The composition of the keywords as the specification words it: up to the first two
  artist tokens while the count is below the maximum, then the title tokens in order that
  are not among them, up to the maximum.
\<close>

definition spec_compose :: "int \<Rightarrow> string list \<Rightarrow> string list \<Rightarrow> string list" where
  "spec_compose max_words artist_tokens title_tokens =
     (let from_artist = take (nat max_words) (take 2 artist_tokens);
          from_title = take (nat max_words - length from_artist)
                         (filter (\<lambda>w. w \<notin> set from_artist) title_tokens)
      in from_artist @ from_title)"

text \<open>The warning that the logger receives for an engine absent from the registry.\<close>

definition warning_for :: "string \<Rightarrow> string" where
  "warning_for engine = ''Unknown search engine: '' @ engine"

text \<open>
  A role is unresolved when its column is neither supplied (\<^verbatim>\<open>None\<close> and the empty
  name count as not supplied) nor detected; a supplied column is absent when the schema
  does not have it.
\<close>

definition unresolved :: "config \<Rightarrow> dataframe \<Rightarrow> name option \<Rightarrow> name option \<Rightarrow> bool" where
  "unresolved cfg df artist_col title_col =
     ((\<not> truthy artist_col \<and> \<not> truthy (fst (detect_columns cfg df))) \<or>
      (\<not> truthy title_col \<and> \<not> truthy (snd (detect_columns cfg df))))"

definition absent_from :: "dataframe \<Rightarrow> name option \<Rightarrow> bool" where
  "absent_from df col = (case col of None \<Rightarrow> False | Some c \<Rightarrow> c \<noteq> [] \<and> c \<notin> set (columns df))"

definition explicit_absent :: "dataframe \<Rightarrow> name option \<Rightarrow> name option \<Rightarrow> bool" where
  "explicit_absent df artist_col title_col = (absent_from df artist_col \<or> absent_from df title_col)"

text \<open>The schema that the message of an error reports, if it reports one.\<close>

fun reported_schema :: "error \<Rightarrow> name list option" where
  "reported_schema (ColumnsNotFound cols) = Some cols"
| "reported_schema e = None"

text \<open>
  The cell that an engine's link column gets for one keywords string: the link, or the
  empty string for an engine absent from the registry.
\<close>

definition link_for :: "config \<Rightarrow> string \<Rightarrow> string \<Rightarrow> string" where
  "link_for cfg engine keywords =
     (case search_engines cfg engine of
        Some url_template \<Rightarrow> format_query url_template (quote_plus keywords)
      | None \<Rightarrow> [])"

text \<open>
  Two engines can have one field name. The engine whose links a field holds after the
  loop is the last requested one with that field name.
\<close>

fun field_engine :: "string list \<Rightarrow> name \<Rightarrow> string option" where
  "field_engine [] name = None"
| "field_engine (engine # rest) name =
     (case field_engine rest name of
        Some later \<Rightarrow> Some later
      | None \<Rightarrow> if link_name engine = name then Some engine else None)"

text \<open>A field holds the empty string for every record: one for each cell of the keywords.\<close>

definition empty_links :: "dataframe \<Rightarrow> name \<Rightarrow> bool" where
  "empty_links df name =
     (case get_column df (codes ''Keywords'') of
        Series keywords \<Rightarrow> get_column df name = Series (map (\<lambda>kw. Some []) keywords)
      | other \<Rightarrow> False)"

text \<open>No requested engine with the given field name is in the registry.\<close>

definition none_known :: "config \<Rightarrow> string list \<Rightarrow> name \<Rightarrow> bool" where
  "none_known cfg engines name =
     list_all (\<lambda>e. link_name e = name \<longrightarrow> search_engines cfg e = None) engines"

text \<open>
  The text before its whitespace is normalized: lowered, bracketed asides removed,
  special characters replaced.
\<close>

definition substituted :: "string \<Rightarrow> string" where
  "substituted s = map replace_special (remove_brackets (lower s))"

text \<open>
  The characters of a cleaned text other than the single spaces: no whitespace, a word
  character or a hyphen, and in lower case.
\<close>

definition clean_char :: "char \<Rightarrow> bool" where
  "clean_char c = (\<not> isspace c \<and> (is_word c \<or> c = CHR ''-'') \<and> lower_char c = c)"

section \<open>Splitting and joining\<close>


lemma isspace_space: "isspace CHR '' ''"
  by (simp add: isspace_def code_def)

lemma split_from_good:
  "list_all (\<lambda>c. \<not> isspace c) cur \<Longrightarrow> list_all good_word (split_from cur s)"
  by (induction s arbitrary: cur) (auto simp: good_word_def)

lemma split_good: "list_all good_word (split s)"
  by (simp add: split_def split_from_good)

lemma split_from_word:
  "list_all (\<lambda>c. \<not> isspace c) w \<Longrightarrow> split_from cur (w @ s) = split_from (cur @ w) s"
  by (induction w arbitrary: cur) auto

lemma split_join: "list_all good_word ws \<Longrightarrow> split (join ws) = ws"
proof (induction ws rule: join.induct)
  case 1
  show ?case by (simp add: split_def)
next
  case (2 w)
  then have "split_from [] (w @ []) = split_from ([] @ w) []"
    by (intro split_from_word) (simp add: good_word_def)
  with 2 show ?case by (simp add: split_def good_word_def)
next
  case (3 w v ws)
  from 3 have w: "w \<noteq> []" "list_all (\<lambda>c. \<not> isspace c) w" by (simp_all add: good_word_def)
  have "split_from [] (w @ CHR '' '' # join (v # ws)) = split_from ([] @ w) (CHR '' '' # join (v # ws))"
    using w(2) by (rule split_from_word)
  also have "\<dots> = w # split_from [] (join (v # ws))"
    using w(1) by (simp add: isspace_space)
  finally show ?case using 3 by (simp add: split_def)
qed

section \<open>Text normalizer\<close>

lemma rstrip_append:
  "rstrip (xs @ ys) = (if \<forall>c\<in>set ys. isspace c then rstrip xs else xs @ rstrip ys)"
  by (simp add: rstrip_def dropWhile_append)

lemma rstrip_no_space: "list_all (\<lambda>c. \<not> isspace c) w \<Longrightarrow> rstrip w = w"
proof (induction w rule: rev_induct)
  case Nil
  show ?case by (simp add: rstrip_def)
next
  case (snoc c w)
  then show ?case by (simp add: rstrip_def)
qed

lemma collapse_head:
  "t = [] \<or> \<not> isspace (hd t) \<Longrightarrow> lstrip (collapse_spaces t) = collapse_spaces t"
  by (cases t) (auto simp: lstrip_def)

lemma dropWhile_head: "dropWhile P xs = [] \<or> \<not> P (hd (dropWhile P xs))"
  using hd_dropWhile[of P xs] by blast

lemma lstrip_collapse: "lstrip (collapse_spaces t) = collapse_spaces (lstrip t)"
proof (cases t)
  case Nil
  then show ?thesis by (simp add: lstrip_def)
next
  case (Cons c cs)
  show ?thesis
  proof (cases "isspace c")
    case True
    have "lstrip (collapse_spaces (dropWhile isspace cs)) = collapse_spaces (dropWhile isspace cs)"
      by (rule collapse_head) (rule dropWhile_head)
    with True Cons show ?thesis by (simp add: lstrip_def isspace_space)
  next
    case False
    with Cons show ?thesis by (simp add: lstrip_def)
  qed
qed

lemma split_from_skip: "split_from [] (dropWhile isspace t) = split_from [] t"
  by (induction t) auto

lemma split_from_Nil: "split_from cur t = [] \<longleftrightarrow> cur = [] \<and> (\<forall>c\<in>set t. isspace c)"
  by (induction t arbitrary: cur) auto

lemma join_Cons: "join (w # ws) = (if ws = [] then w else w @ CHR '' '' # join ws)"
  by (cases ws) auto

lemma collapse_Nil: "collapse_spaces t = [] \<longleftrightarrow> t = []"
  by (cases t) auto

lemma collapse_all_space:
  "t = [] \<or> \<not> isspace (hd t) \<Longrightarrow> (\<forall>c\<in>set (collapse_spaces t). isspace c) \<longleftrightarrow> t = []"
  by (cases t) auto

lemma rstrip_collapse:
  "list_all (\<lambda>c. \<not> isspace c) cur \<Longrightarrow> cur \<noteq> [] \<or> t = [] \<or> \<not> isspace (hd t) \<Longrightarrow>
   rstrip (cur @ collapse_spaces t) = join (split_from cur t)"
proof (induction t arbitrary: cur rule: collapse_spaces.induct)
  case 1
  then show ?case by (simp add: rstrip_no_space)
next
  case (2 c cs)
  show ?case
  proof (cases "isspace c")
    case True
    define u where "u = dropWhile isspace cs"
    have head: "u = [] \<or> \<not> isspace (hd u)" unfolding u_def by (rule dropWhile_head)
    from True "2.prems" have cur: "cur \<noteq> []" by simp
    have ih: "rstrip (collapse_spaces u) = join (split_from [] u)"
      using "2.IH"(1)[OF True, of "[]"] head unfolding u_def by simp
    have sp: "split_from cur (c # cs) = cur # split_from [] u"
      using True cur by (simp add: u_def split_from_skip)
    have col: "collapse_spaces (c # cs) = CHR '' '' # collapse_spaces u"
      using True by (simp add: u_def)
    show ?thesis
    proof (cases "u = []")
      case True
      then show ?thesis
        unfolding sp col using "2.prems"(1)
        by (simp add: rstrip_append isspace_space rstrip_no_space)
    next
      case False
      with head have "\<not> isspace (hd u)" by simp
      with False have ns: "\<not> (\<forall>c\<in>set u. isspace c)" by (cases u) auto
      then have ne: "split_from [] u \<noteq> []" by (simp add: split_from_Nil)
      from False head have nb: "\<not> (\<forall>c\<in>set (collapse_spaces u). isspace c)"
        by (simp add: collapse_all_space)
      have "rstrip ((cur @ [CHR '' '']) @ collapse_spaces u)
                   = (cur @ [CHR '' '']) @ rstrip (collapse_spaces u)"
        by (simp only: rstrip_append nb if_False)
      then have "rstrip (cur @ CHR '' '' # collapse_spaces u)
                   = cur @ CHR '' '' # rstrip (collapse_spaces u)"
        by simp
      then show ?thesis
        unfolding sp col by (simp add: join_Cons ne ih)
    qed
  next
    case False
    have "list_all (\<lambda>c. \<not> isspace c) (cur @ [c])"
      using False "2.prems"(1) by simp
    from "2.IH"(2)[OF False this] have
      "rstrip ((cur @ [c]) @ collapse_spaces cs) = join (split_from (cur @ [c]) cs)"
      by simp
    with False show ?thesis by simp
  qed
qed

lemma strip_collapse: "strip (collapse_spaces t) = join (split t)"
proof -
  have "strip (collapse_spaces t) = rstrip ([] @ collapse_spaces (lstrip t))"
    by (simp add: strip_def lstrip_collapse)
  also have "\<dots> = join (split_from [] (lstrip t))"
  proof (rule rstrip_collapse)
    show "list_all (\<lambda>c. \<not> isspace c) []" by simp
    show "[] \<noteq> [] \<or> lstrip t = [] \<or> \<not> isspace (hd (lstrip t))"
      using dropWhile_head[of isspace t] unfolding lstrip_def by blast
  qed
  finally show ?thesis by (simp add: lstrip_def split_from_skip split_def)
qed

lemma code_char_of: "n < 256 \<Longrightarrow> code (char_of n) = n"
  by (simp add: code_def)

lemma isupper_lower: "isupper c \<Longrightarrow> \<not> isupper (char_of (code c + 32))"
proof -
  assume u: "isupper c"
  then have "code c + 32 < 256" by (auto simp: isupper_def Let_def)
  then have "code (char_of (code c + 32)) = code c + 32" by (rule code_char_of)
  with u show ?thesis by (auto simp: isupper_def Let_def)
qed

lemma lower_char_idem: "lower_char (lower_char c) = lower_char c"
  by (simp add: lower_char_def isupper_lower)

lemma lower_char_space: "lower_char CHR '' '' = CHR '' ''"
  by (simp add: lower_char_def isupper_def code_def)

lemma open_not_kept: "is_open c \<Longrightarrow> \<not> is_word c \<and> c \<noteq> CHR ''-'' \<and> \<not> isspace c"
  unfolding is_open_def
  by (elim disjE) (simp_all add: is_word_def isalnum_def isspace_def code_def)

lemma replace_special_clean:
  "\<not> isspace (replace_special (lower_char x)) \<Longrightarrow> clean_char (replace_special (lower_char x))"
proof -
  assume ns: "\<not> isspace (replace_special (lower_char x))"
  show ?thesis
  proof (cases "is_word (lower_char x) \<or> isspace (lower_char x) \<or> lower_char x = CHR ''-''")
    case True
    then have "replace_special (lower_char x) = lower_char x" by (simp add: replace_special_def)
    with ns True show ?thesis by (simp add: clean_char_def lower_char_idem)
  next
    case False
    then have "replace_special (lower_char x) = CHR '' ''" by (simp add: replace_special_def)
    with ns show ?thesis by (simp add: isspace_space)
  qed
qed

lemma find_close_set: "find_close cs = Some r \<Longrightarrow> set r \<subseteq> set cs"
  by (induction cs) (auto split: if_splits)

lemma remove_brackets_set: "set (remove_brackets s) \<subseteq> set s"
proof (induction s rule: remove_brackets.induct)
  case 1
  show ?case by simp
next
  case (2 c cs)
  show ?case
  proof (cases "is_open c")
    case True
    show ?thesis
    proof (cases "find_close cs")
      case None
      from "2.IH"(1)[OF True None] True None show ?thesis by auto
    next
      case (Some r)
      from "2.IH"(2)[OF True Some] True Some find_close_set[OF Some] show ?thesis by auto
    qed
  next
    case False
    from "2.IH"(3)[OF False] False show ?thesis by auto
  qed
qed

lemma substituted_chars:
  assumes "c \<in> set (substituted s)" "\<not> isspace c"
  shows "clean_char c"
proof -
  from assms(1) obtain y where y: "y \<in> set (remove_brackets (lower s))" "c = replace_special y"
    by (auto simp: substituted_def)
  from y(1) remove_brackets_set have "y \<in> set (lower s)" by blast
  then obtain x where "y = lower_char x" by (auto simp: lower_def)
  with y(2) assms(2) show ?thesis by (simp add: replace_special_clean)
qed

lemma split_from_chars: "w \<in> set (split_from cur t) \<Longrightarrow> set w \<subseteq> set cur \<union> set t"
proof (induction t arbitrary: cur)
  case Nil
  then show ?case by (auto split: if_splits)
next
  case (Cons c t)
  show ?case
  proof (cases "isspace c")
    case True
    with Cons.prems have "w = cur \<or> w \<in> set (split_from [] t)"
      by (auto split: if_splits)
    with Cons.IH[of "[]"] show ?thesis by auto
  next
    case False
    with Cons.prems have "w \<in> set (split_from (cur @ [c]) t)" by simp
    from Cons.IH[OF this] show ?thesis by auto
  qed
qed

lemma join_chars: "c \<in> set (join ws) \<Longrightarrow> c = CHR '' '' \<or> (\<exists>w\<in>set ws. c \<in> set w)"
  by (induction ws rule: join.induct) auto

lemma remove_brackets_none: "\<forall>c\<in>set t. \<not> is_open c \<Longrightarrow> remove_brackets t = t"
  by (induction t) auto

lemma substituted_tidy:
  assumes "\<forall>c\<in>set t. c = CHR '' '' \<or> clean_char c"
  shows "substituted t = t"
proof -
  have fixed: "lower_char c = c \<and> \<not> is_open c \<and> replace_special c = c" if "c \<in> set t" for c
  proof (cases "c = CHR '' ''")
    case True
    have "\<not> is_open CHR '' ''" by (simp add: is_open_def)
    moreover have "replace_special CHR '' '' = CHR '' ''"
      by (simp add: replace_special_def isspace_space)
    ultimately show ?thesis using True by (simp add: lower_char_space)
  next
    case False
    with assms that have cc: "clean_char c" by blast
    then have "\<not> is_open c" using open_not_kept[of c] unfolding clean_char_def by blast
    moreover from cc have "replace_special c = c"
      unfolding clean_char_def replace_special_def by simp
    moreover from cc have "lower_char c = c" unfolding clean_char_def by blast
    ultimately show ?thesis by blast
  qed
  have l: "lower t = t"
    unfolding lower_def by (rule map_idI) (simp add: fixed)
  have o: "\<forall>c\<in>set t. \<not> is_open c" by (simp add: fixed)
  have r: "map replace_special t = t"
    by (rule map_idI) (simp add: fixed)
  show ?thesis by (simp add: substituted_def l remove_brackets_none[OF o] r)
qed

lemma clean_text_words: "clean_text (Some s) = join (split (substituted s))"
  by (simp add: clean_text_def strip_collapse substituted_def lower_def split_def)

text \<open>
  C7. \<^verbatim>\<open>clean_text\<close> is idempotent: cleaning a cleaned text, of a string or of a
  missing cell, gives the cleaned text again.
\<close>

theorem C7_clean_text_idempotent: "clean_text (Some (clean_text raw)) = clean_text raw"
proof (cases raw)
  case None
  then show ?thesis by (simp add: clean_text_def)
next
  case (Some s)
  define ws where "ws = split (substituted s)"
  have good: "list_all good_word ws" unfolding ws_def by (rule split_good)
  have tidy: "\<forall>c\<in>set (join ws). c = CHR '' '' \<or> clean_char c"
  proof
    fix c assume c: "c \<in> set (join ws)"
    show "c = CHR '' '' \<or> clean_char c"
    proof (cases "c = CHR '' ''")
      case True
      then show ?thesis by simp
    next
      case False
      with join_chars[OF c] obtain w where w: "w \<in> set ws" "c \<in> set w" by blast
      from w(1) good have "\<not> isspace c"
        using w(2) by (auto simp: list_all_iff good_word_def)
      moreover from w(1) have "set w \<subseteq> set (substituted s)"
        unfolding ws_def split_def using split_from_chars[of w "[]" "substituted s"] by simp
      with w(2) have "c \<in> set (substituted s)" by blast
      ultimately show ?thesis by (simp add: substituted_chars)
    qed
  qed
  have "clean_text (Some (join ws)) = join (split (substituted (join ws)))"
    by (rule clean_text_words)
  also have "\<dots> = join (split (join ws))"
    by (simp only: substituted_tidy[OF tidy])
  also have "\<dots> = join ws"
    by (simp only: split_join[OF good])
  finally show ?thesis
    unfolding Some clean_text_words ws_def .
qed

section \<open>Keyword extractor\<close>

lemma keep_words_set: "set (keep_words sw acc ws) \<subseteq> set acc \<union> set ws"
proof (induction ws arbitrary: acc)
  case Nil
  show ?case by simp
next
  case (Cons w ws)
  define acc' where "acc' = (if w \<notin> sw \<and> w \<notin> set acc \<and> length w > 1 then acc @ [w] else acc)"
  have "set (keep_words sw acc' ws) \<subseteq> set acc' \<union> set ws" by (rule Cons.IH)
  moreover have "set acc' \<subseteq> set acc \<union> {w}" by (auto simp: acc'_def)
  moreover have "keep_words sw acc (w # ws) = keep_words sw acc' ws" by (simp add: acc'_def)
  ultimately show ?case by auto
qed

lemma keep_words_distinct: "distinct acc \<Longrightarrow> distinct (keep_words sw acc ws)"
  by (induction ws arbitrary: acc) auto

lemma keep_words_first_seen:
  "keep_words sw acc ws = acc @ filter (\<lambda>w. w \<notin> set acc) (first_seen (filter (keepable sw) ws))"
proof (induction ws arbitrary: acc)
  case Nil
  show ?case by simp
next
  case (Cons w ws)
  have eq1: "filter (\<lambda>y. y \<noteq> w \<and> y \<notin> set acc) xs = filter (\<lambda>y. y \<notin> set acc) xs"
    if "w \<in> set acc" for xs :: "string list"
    using that by (intro filter_cong) auto
  have eq2: "filter (\<lambda>y. y \<notin> set acc \<and> y \<noteq> w) xs = filter (\<lambda>y. y \<noteq> w \<and> y \<notin> set acc) xs"
    for xs :: "string list"
    by (intro filter_cong) auto
  show ?case
  proof (cases "keepable sw w")
    case True
    then have k: "w \<notin> sw" "length w > 1" by (simp_all add: keepable_def)
    show ?thesis
    proof (cases "w \<in> set acc")
      case inacc: True
      then have "keep_words sw acc (w # ws) = keep_words sw acc ws" by simp
      with True inacc show ?thesis by (simp add: Cons.IH eq1)
    next
      case False
      with k have "keep_words sw acc (w # ws) = keep_words sw (acc @ [w]) ws" by simp
      with True False show ?thesis by (simp add: Cons.IH eq2)
    qed
  next
    case False
    then have "\<not> (w \<notin> sw \<and> w \<notin> set acc \<and> length w > 1)" by (auto simp: keepable_def)
    then have "keep_words sw acc (w # ws) = keep_words sw acc ws" by auto
    with False show ?thesis by (simp add: Cons.IH)
  qed
qed

lemma set_first_seen: "set (first_seen xs) = set xs"
  by (induction xs) auto

lemma distinct_first_seen: "distinct (first_seen xs)"
  by (induction xs) (auto simp: set_first_seen)

lemma first_seen_filter: "first_seen (filter P xs) = filter P (first_seen xs)"
proof (induction xs)
  case Nil
  show ?case by simp
next
  case (Cons x xs)
  show ?case
  proof (cases "P x")
    case True
    with Cons show ?thesis by (simp add: conj_commute)
  next
    case False
    have "filter (\<lambda>y. y \<noteq> x \<and> P y) (first_seen xs) = filter P (first_seen xs)"
      using False by (intro filter_cong) auto
    with False Cons show ?thesis by simp
  qed
qed

lemma add_artist_words_take:
  "add_artist_words mw c aw = c @ take (nat (mw - int (length c))) aw"
proof (induction aw arbitrary: c)
  case Nil
  show ?case by simp
next
  case (Cons w aw)
  show ?case
  proof (cases "int (length c) < mw")
    case True
    then have "nat (mw - int (length c)) = Suc (nat (mw - int (length (c @ [w]))))" by simp
    with True Cons[of "c @ [w]"] show ?thesis by simp
  next
    case False
    with Cons[of c] show ?thesis by simp
  qed
qed

lemma fill_title_words_take:
  "distinct tw \<Longrightarrow>
   fill_title_words mw c tw = c @ take (nat (mw - int (length c))) (filter (\<lambda>w. w \<notin> set c) tw)"
proof (induction tw arbitrary: c)
  case Nil
  show ?case by simp
next
  case (Cons w tw)
  then have d: "distinct tw" and w: "w \<notin> set tw" by simp_all
  show ?case
  proof (cases "int (length c) \<ge> mw")
    case True
    then show ?thesis by simp
  next
    case full: False
    show ?thesis
    proof (cases "w \<in> set c")
      case True
      with full Cons.IH[OF d, of c] show ?thesis by simp
    next
      case False
      have n: "nat (mw - int (length c)) = Suc (nat (mw - int (length (c @ [w]))))"
        using full by simp
      have f: "filter (\<lambda>x. x \<notin> set (c @ [w])) tw = filter (\<lambda>x. x \<notin> set c) tw"
        using w by (intro filter_cong) auto
      from full False Cons.IH[OF d, of "c @ [w]"] show ?thesis
        by (simp add: n f del: set_append)
    qed
  qed
qed

lemma filtered_words_distinct: "distinct (filtered_words cfg text)"
  by (simp add: filtered_words_def keep_words_distinct)

lemma filtered_words_good: "list_all good_word (filtered_words cfg text)"
proof -
  have "set (filtered_words cfg text) \<subseteq> set (split (clean_text text))"
    using keep_words_set[of "processor_stopwords cfg" "[]"] by (simp add: filtered_words_def)
  with split_good[of "clean_text text"] show ?thesis
    by (auto simp: list_all_iff)
qed

lemma artist_words_subset: "set (artist_words_of cfg artist) \<subseteq> set (filtered_words cfg artist)"
  by (simp add: artist_words_of_def Let_def)

lemma artist_words_distinct: "distinct (artist_words_of cfg artist)"
  by (simp add: artist_words_of_def Let_def filtered_words_distinct)

lemma combined_words_compose:
  "combined_words cfg artist title max_words =
     spec_compose (effective_max cfg max_words) (artist_words_of cfg artist) (title_words_of cfg title)"
proof -
  have "distinct (title_words_of cfg title)"
    by (simp add: title_words_of_def filtered_words_distinct)
  moreover have "nat (m - int k) = nat m - k" for m :: int and k :: nat
    by arith
  ultimately show ?thesis
    by (simp add: combined_words_def spec_compose_def Let_def add_artist_words_take
        fill_title_words_take)
qed

lemma spec_compose_length: "int (length (spec_compose m aw tw)) \<le> max 0 m"
proof -
  define xs where "xs = take (nat m) (take 2 aw)"
  have "length xs \<le> nat m" by (simp add: xs_def)
  moreover have "spec_compose m aw tw = xs @ take (nat m - length xs) (filter (\<lambda>w. w \<notin> set xs) tw)"
    by (simp add: spec_compose_def Let_def xs_def)
  then have "length (spec_compose m aw tw) \<le> length xs + (nat m - length xs)"
    by simp
  ultimately have "length (spec_compose m aw tw) \<le> nat m" by linarith
  then show ?thesis by linarith
qed

lemma spec_compose_nonpos: "m \<le> 0 \<Longrightarrow> spec_compose m aw tw = []"
  by (simp add: spec_compose_def Let_def)

lemma spec_compose_distinct:
  "distinct aw \<Longrightarrow> distinct tw \<Longrightarrow> distinct (spec_compose m aw tw)"
  by (auto simp: spec_compose_def Let_def dest: in_set_takeD)

lemma spec_compose_set: "set (spec_compose m aw tw) \<subseteq> set aw \<union> set tw"
  by (auto simp: spec_compose_def Let_def dest: in_set_takeD)

lemma combined_words_good: "list_all good_word (combined_words cfg artist title max_words)"
proof -
  have "set (combined_words cfg artist title max_words)
          \<subseteq> set (filtered_words cfg artist) \<union> set (filtered_words cfg title)"
    using spec_compose_set[of "effective_max cfg max_words" "artist_words_of cfg artist" "title_words_of cfg title"]
      artist_words_subset[of cfg artist]
    by (auto simp: combined_words_compose title_words_of_def)
  with filtered_words_good[of cfg artist] filtered_words_good[of cfg title] show ?thesis
    by (auto simp: list_all_iff)
qed

lemma tokens_generate_keywords:
  "split (generate_keywords cfg artist title max_words) = combined_words cfg artist title max_words"
  by (simp add: generate_keywords_def split_join combined_words_good)

text \<open>
  C2. For a positive \<^verbatim>\<open>max_words\<close> the keywords are composed of up to the first two
  artist tokens, in order, while the count is below \<^verbatim>\<open>max_words\<close>, followed by the
  title tokens in order that are not yet in the list, up to \<^verbatim>\<open>max_words\<close> in all; and
  the keywords of "Pink Floyd", "The Dark Side of the Moon" with \<^verbatim>\<open>max_words = 2\<close> are
  "pink floyd".
\<close>

theorem C2_compose:
  "(0 < n \<longrightarrow>
      generate_keywords cfg artist title (Some n) =
        join (spec_compose n (artist_words_of cfg artist) (title_words_of cfg title))) \<and>
   generate_keywords DEFAULT_CONFIG (Some ''Pink Floyd'') (Some ''The Dark Side of the Moon'') (Some 2)
     = ''pink floyd''"
proof
  show "0 < n \<longrightarrow> generate_keywords cfg artist title (Some n) =
        join (spec_compose n (artist_words_of cfg artist) (title_words_of cfg title))"
    by (simp add: generate_keywords_def combined_words_compose effective_max_def)
  show "generate_keywords DEFAULT_CONFIG (Some ''Pink Floyd'') (Some ''The Dark Side of the Moon'') (Some 2)
     = ''pink floyd''"
    by code_simp
qed

text \<open>The composition at the example of C2, where the hypothesis holds.\<close>

theorem C2_witness:
  "(0::int) < 2 \<and>
   join (spec_compose 2 (artist_words_of DEFAULT_CONFIG (Some ''Pink Floyd''))
          (title_words_of DEFAULT_CONFIG (Some ''The Dark Side of the Moon''))) = ''pink floyd''"
proof -
  note inst = C2_compose[of 2 DEFAULT_CONFIG "Some ''Pink Floyd''" "Some ''The Dark Side of the Moon''"]
  have pos: "(0::int) < 2" by simp
  from inst pos have composed:
    "generate_keywords DEFAULT_CONFIG (Some ''Pink Floyd'') (Some ''The Dark Side of the Moon'') (Some 2) =
       join (spec_compose 2 (artist_words_of DEFAULT_CONFIG (Some ''Pink Floyd''))
          (title_words_of DEFAULT_CONFIG (Some ''The Dark Side of the Moon'')))"
    by blast
  from inst have example:
    "generate_keywords DEFAULT_CONFIG (Some ''Pink Floyd'') (Some ''The Dark Side of the Moon'') (Some 2) =
       ''pink floyd''"
    by blast
  from pos trans[OF composed[symmetric] example] show ?thesis by blast
qed

text \<open>
  C3, as stated, fails at \<^verbatim>\<open>max_words = 0\<close>: zero is falsy, the configured maximum of
  five words is used and the result is not empty.
\<close>

theorem C3_counterexample:
  "\<not> ((0::int) \<le> 0 \<longrightarrow>
        generate_keywords DEFAULT_CONFIG (Some ''Pink Floyd'') (Some ''The Dark Side of the Moon'') (Some 0) = [])"
  by code_simp

text \<open>
  C3, amended. A negative \<^verbatim>\<open>max_words\<close> gives the empty string. A \<^verbatim>\<open>max_words\<close> of
  zero is treated as not passed: the result is the one for the configured
  \<^verbatim>\<open>max_keywords\<close>, which is empty when that is not positive.
\<close>

theorem C3_nonpositive_max:
  "(n < 0 \<longrightarrow> generate_keywords cfg artist title (Some n) = []) \<and>
   generate_keywords cfg artist title (Some 0) = generate_keywords cfg artist title None \<and>
   (max_keywords cfg \<le> 0 \<longrightarrow> generate_keywords cfg artist title (Some 0) = [])"
  by (simp add: generate_keywords_def combined_words_compose effective_max_def spec_compose_nonpos)

text \<open>C3 at \<^verbatim>\<open>max_words = -1\<close>, and at \<^verbatim>\<open>max_words = 0\<close> with \<^verbatim>\<open>max_keywords = 0\<close>.\<close>

theorem C3_witness:
  "(-1::int) < 0 \<and>
   generate_keywords DEFAULT_CONFIG (Some ''Pink Floyd'') (Some ''The Dark Side of the Moon'') (Some (-1)) = [] \<and>
   max_keywords (DEFAULT_CONFIG\<lparr>max_keywords := 0\<rparr>) \<le> 0 \<and>
   generate_keywords (DEFAULT_CONFIG\<lparr>max_keywords := 0\<rparr>) (Some ''Pink Floyd'') (Some ''Animals'') (Some 0) = []"
proof -
  have neg: "(-1::int) < 0" by simp
  have zero: "max_keywords (DEFAULT_CONFIG\<lparr>max_keywords := 0\<rparr>) \<le> 0" by simp
  from neg C3_nonpositive_max[of "-1" DEFAULT_CONFIG "Some ''Pink Floyd''" "Some ''The Dark Side of the Moon''"]
  have a: "generate_keywords DEFAULT_CONFIG (Some ''Pink Floyd'') (Some ''The Dark Side of the Moon'') (Some (-1)) = []"
    by blast
  from zero C3_nonpositive_max[of 0 "DEFAULT_CONFIG\<lparr>max_keywords := 0\<rparr>" "Some ''Pink Floyd''" "Some ''Animals''"]
  have b: "generate_keywords (DEFAULT_CONFIG\<lparr>max_keywords := 0\<rparr>) (Some ''Pink Floyd'') (Some ''Animals'') (Some 0) = []"
    by blast
  from neg zero a b show ?thesis by blast
qed

text \<open>
  C4, as stated, fails at \<^verbatim>\<open>max_words = 0\<close>: the result has five tokens, the configured
  maximum.
\<close>

theorem C4_counterexample:
  "\<not> int (length (split (generate_keywords DEFAULT_CONFIG (Some ''Pink Floyd'')
        (Some ''The Dark Side of the Moon'') (Some 0)))) \<le> 0"
  by code_simp

text \<open>
  C4, amended. The number of whitespace-separated tokens of the result is at most the
  maximum in force, which is \<^verbatim>\<open>max_words\<close> unless that is zero or not given, and the
  configured \<^verbatim>\<open>max_keywords\<close> otherwise; it is zero when the maximum in force is
  negative.
\<close>

theorem C4_token_count:
  "int (length (split (generate_keywords cfg artist title max_words)))
     \<le> max 0 (effective_max cfg max_words)"
  by (simp only: tokens_generate_keywords combined_words_compose spec_compose_length)

lemma subseq_take_left: "subseq (take n xs) xs"
  using take_is_prefix by (rule prefix_imp_subseq)

lemma filtered_words_first_seen:
  "filtered_words cfg text =
     filter (keepable (processor_stopwords cfg)) (first_seen (split (clean_text text)))"
  by (simp add: filtered_words_def keep_words_first_seen first_seen_filter)

lemma filtered_words_subseq:
  "subseq (filtered_words cfg text) (first_seen (split (clean_text text)))"
  by (simp add: filtered_words_first_seen)

lemma artist_words_subseq:
  "subseq (artist_words_of cfg artist) (first_seen (split (clean_text artist)))"
  by (simp add: artist_words_of_def Let_def filtered_words_subseq)

text \<open>
  C5. The tokens of the result are pairwise distinct; they are at most two tokens of the
  artist followed by tokens of the title, each part in the order in which the tokens are
  first seen in the cleaned field.
\<close>

theorem C5_distinct_in_first_seen_order:
  "distinct (split (generate_keywords cfg artist title max_words)) \<and>
   (\<exists>from_artist from_title.
      split (generate_keywords cfg artist title max_words) = from_artist @ from_title \<and>
      length from_artist \<le> 2 \<and>
      subseq from_artist (first_seen (split (clean_text artist))) \<and>
      subseq from_title (first_seen (split (clean_text title))))"
proof -
  define m where "m = effective_max cfg max_words"
  define aw where "aw = artist_words_of cfg artist"
  define tw where "tw = title_words_of cfg title"
  define fa where "fa = take (nat m) (take 2 aw)"
  define ft where "ft = take (nat m - length fa) (filter (\<lambda>w. w \<notin> set fa) tw)"
  have tokens: "split (generate_keywords cfg artist title max_words) = fa @ ft"
    by (simp add: tokens_generate_keywords combined_words_compose spec_compose_def Let_def
        m_def aw_def tw_def fa_def ft_def)
  have "distinct (spec_compose m aw tw)"
    by (rule spec_compose_distinct)
      (simp_all add: aw_def tw_def artist_words_distinct title_words_of_def filtered_words_distinct)
  then have d: "distinct (fa @ ft)"
    by (simp add: spec_compose_def Let_def fa_def ft_def)
  have l: "length fa \<le> 2" by (simp add: fa_def)
  have "subseq fa aw"
    unfolding fa_def by (rule subseq_order.trans[OF subseq_take_left subseq_take_left])
  then have sa: "subseq fa (first_seen (split (clean_text artist)))"
    using artist_words_subseq[of cfg artist] unfolding aw_def by (rule subseq_order.trans)
  have "subseq ft tw"
    unfolding ft_def by (rule subseq_order.trans[OF subseq_take_left subseq_filter_left])
  then have st: "subseq ft (first_seen (split (clean_text title)))"
    using filtered_words_subseq[of cfg title] unfolding tw_def title_words_of_def
    by (rule subseq_order.trans)
  from tokens d l sa st show ?thesis by metis
qed

text \<open>
  C6. When the filtered artist words contain "various", "va" or "compilation", the
  artist is discarded: the keywords are those of the title alone, the same as for a
  missing artist; and the keywords of "Various Artists", "OK Computer" with
  \<^verbatim>\<open>max_words = 5\<close> are "ok computer".
\<close>

theorem C6_various_artists:
  "(list_ex (\<lambda>word. word \<in> set various_markers) (filtered_words cfg artist) \<longrightarrow>
      generate_keywords cfg artist title max_words = generate_keywords cfg None title max_words \<and>
      generate_keywords cfg artist title max_words
        = join (take (nat (effective_max cfg max_words)) (title_words_of cfg title))) \<and>
   generate_keywords DEFAULT_CONFIG (Some ''Various Artists'') (Some ''OK Computer'') (Some 5)
     = ''ok computer''"
proof (intro conjI impI)
  assume v: "list_ex (\<lambda>word. word \<in> set various_markers) (filtered_words cfg artist)"
  then have a: "artist_words_of cfg artist = []"
    by (simp add: artist_words_of_def Let_def)
  have n: "artist_words_of cfg None = []"
    by (simp add: artist_words_of_def filtered_words_def clean_text_def split_def Let_def)
  show "generate_keywords cfg artist title max_words = generate_keywords cfg None title max_words"
    by (simp add: generate_keywords_def combined_words_compose a n)
  show "generate_keywords cfg artist title max_words
        = join (take (nat (effective_max cfg max_words)) (title_words_of cfg title))"
    by (simp add: generate_keywords_def combined_words_compose a spec_compose_def)
next
  show "generate_keywords DEFAULT_CONFIG (Some ''Various Artists'') (Some ''OK Computer'') (Some 5)
     = ''ok computer''"
    by code_simp
qed

text \<open>C6 at "Various Artists", whose filtered words contain "various".\<close>

theorem C6_witness:
  "list_ex (\<lambda>word. word \<in> set various_markers) (filtered_words DEFAULT_CONFIG (Some ''Various Artists'')) \<and>
   generate_keywords DEFAULT_CONFIG (Some ''Various Artists'') (Some ''OK Computer'') (Some 5)
     = generate_keywords DEFAULT_CONFIG None (Some ''OK Computer'') (Some 5)"
proof -
  have v: "list_ex (\<lambda>word. word \<in> set various_markers) (filtered_words DEFAULT_CONFIG (Some ''Various Artists''))"
    by code_simp
  with C6_various_artists[of DEFAULT_CONFIG "Some ''Various Artists''" "Some ''OK Computer''" "Some 5"]
  show ?thesis by blast
qed

section \<open>Column detector\<close>

lemma first_column_None: "first_column cols cands = None \<longleftrightarrow> (\<forall>c\<in>set cands. c \<notin> set cols)"
  by (induction cands) auto

lemma first_column_Some:
  "first_column cols cands = Some c \<longleftrightarrow>
     (\<exists>i<length cands. cands ! i = c \<and> c \<in> set cols \<and> (\<forall>j<i. cands ! j \<notin> set cols))"
proof (induction cands)
  case Nil
  then show ?case by simp
next
  case (Cons a cands)
  show ?case
  proof (cases "a \<in> set cols")
    case True
    have "(\<exists>i<length (a # cands). (a # cands) ! i = c \<and> c \<in> set cols \<and> (\<forall>j<i. (a # cands) ! j \<notin> set cols)) \<longleftrightarrow> a = c"
    proof
      assume "\<exists>i<length (a # cands). (a # cands) ! i = c \<and> c \<in> set cols \<and> (\<forall>j<i. (a # cands) ! j \<notin> set cols)"
      then obtain i where i: "(a # cands) ! i = c" "\<forall>j<i. (a # cands) ! j \<notin> set cols" by blast
      from i(2) True have "i = 0" by (cases i) auto
      with i(1) show "a = c" by simp
    next
      assume "a = c"
      with True show "\<exists>i<length (a # cands). (a # cands) ! i = c \<and> c \<in> set cols \<and> (\<forall>j<i. (a # cands) ! j \<notin> set cols)"
        by (intro exI[of _ 0]) simp
    qed
    with True show ?thesis by simp
  next
    case False
    have "(\<exists>i<length (a # cands). (a # cands) ! i = c \<and> c \<in> set cols \<and> (\<forall>j<i. (a # cands) ! j \<notin> set cols))
       \<longleftrightarrow> (\<exists>i<length cands. cands ! i = c \<and> c \<in> set cols \<and> (\<forall>j<i. cands ! j \<notin> set cols))"
      (is "?L \<longleftrightarrow> ?R")
    proof
      assume ?L
      then obtain i where i: "i < length (a # cands)" "(a # cands) ! i = c" "c \<in> set cols"
        "\<forall>j<i. (a # cands) ! j \<notin> set cols" by blast
      from i(2,3) False obtain k where k: "i = Suc k" by (cases i) auto
      have "\<forall>j<k. cands ! j \<notin> set cols"
      proof (intro allI impI)
        fix j assume "j < k"
        then have "Suc j < i" using k by simp
        with i(4) have "(a # cands) ! Suc j \<notin> set cols" by blast
        then show "cands ! j \<notin> set cols" by simp
      qed
      with i k show ?R by (intro exI[of _ k]) simp
    next
      assume ?R
      then obtain i where i: "i < length cands" "cands ! i = c" "c \<in> set cols"
        "\<forall>j<i. cands ! j \<notin> set cols" by blast
      have "\<forall>j<Suc i. (a # cands) ! j \<notin> set cols"
      proof (intro allI impI)
        fix j assume "j < Suc i"
        then show "(a # cands) ! j \<notin> set cols" using False i(4) by (cases j) auto
      qed
      with i show ?L by (intro exI[of _ "Suc i"]) simp
    qed
    with False Cons.IH show ?thesis by simp
  qed
qed

text \<open>
  C8. For every schema and every pair of ordered candidate lists, \<^verbatim>\<open>detect_columns\<close>
  returns, for the artist role and for the title role independently, the first candidate
  in list order that is present in the schema, and nothing for a role none of whose
  candidates is present.
\<close>

theorem C8_detect_columns_first_candidate:
  "first_present (set (columns df)) (artist_columns cfg) (fst (detect_columns cfg df)) \<and>
   first_present (set (columns df)) (title_columns cfg) (snd (detect_columns cfg df))"
  unfolding first_present_def detect_columns_def
  by (simp add: first_column_None first_column_Some[symmetric] split: option.split)

theorem C8_witness:
  "detect_columns DEFAULT_CONFIG lastfm = (Some (codes ''artist''), Some (codes ''album'')) \<and>
   first_present (set (columns lastfm)) (artist_columns DEFAULT_CONFIG) (Some (codes ''artist'')) \<and>
   first_present (set (columns lastfm)) (title_columns DEFAULT_CONFIG) (Some (codes ''album''))"
proof -
  have d: "detect_columns DEFAULT_CONFIG lastfm = (Some (codes ''artist''), Some (codes ''album''))"
    by code_simp
  show ?thesis
    using C8_detect_columns_first_candidate[of lastfm DEFAULT_CONFIG] by (simp add: d)
qed

section \<open>Link builder\<close>

lemma links_loop_dom:
  "dom (fst (links_loop cfg q es links ws)) = dom links \<union> {e \<in> set es. search_engines cfg e \<noteq> None}"
  by (induction es arbitrary: links ws) (auto split: option.splits)

lemma links_loop_warnings:
  "snd (links_loop cfg q es links ws) =
     ws @ map warning_for (filter (\<lambda>e. search_engines cfg e = None) es)"
  by (induction es arbitrary: links ws) (auto simp: warning_for_def split: option.splits)

lemma links_loop_lookup:
  "fst (links_loop cfg q es links ws) e =
     (if e \<in> set es \<and> search_engines cfg e \<noteq> None
      then Some (format_query (the (search_engines cfg e)) q) else links e)"
  by (induction es arbitrary: links ws) (auto split: option.splits)

text \<open>
  C9, as stated, fails for the empty list of requested engines: the default engine is
  used and its link is returned, under a key that was not requested.
\<close>

theorem C9_counterexample:
  "''wikipedia'' \<in> dom (fst (generate_search_links DEFAULT_CONFIG ''abbey road'' (Some []))) \<and>
   ''wikipedia'' \<notin> {e \<in> set []. e \<in> dom (search_engines DEFAULT_CONFIG)}"
proof -
  have "fst (generate_search_links DEFAULT_CONFIG ''abbey road'' (Some [])) ''wikipedia''
          = Some ''https://en.wikipedia.org/wiki/Special:Search?search=abbey+road''"
    by code_simp
  then show ?thesis by auto
qed

text \<open>
  C9, amended. The engines in force are the requested ones, or the default engine alone
  when none is requested (\<^verbatim>\<open>None\<close> or the empty list). The keys of the returned mapping
  are exactly the engines in force that the registry has, each with its template filled
  with the escaped keywords; an engine in force that the registry lacks is skipped with a
  warning, nothing is raised, and the links of the other engines are still there.
\<close>

theorem C9_links_of_known_engines:
  "dom (fst (generate_search_links cfg keywords engines))
     = {e \<in> set (requested_engines cfg engines). e \<in> dom (search_engines cfg)} \<and>
   (\<forall>e\<in>set (requested_engines cfg engines). \<forall>url_template.
      search_engines cfg e = Some url_template \<longrightarrow>
      fst (generate_search_links cfg keywords engines) e
        = Some (format_query url_template (quote_plus keywords))) \<and>
   snd (generate_search_links cfg keywords engines)
     = map warning_for (filter (\<lambda>e. e \<notin> dom (search_engines cfg)) (requested_engines cfg engines)) \<and>
   (es \<noteq> [] \<longrightarrow> requested_engines cfg (Some es) = es) \<and>
   requested_engines cfg (Some []) = [default_search_engine cfg] \<and>
   requested_engines cfg None = [default_search_engine cfg]"
proof -
  have f: "(\<lambda>e. e \<notin> dom (search_engines cfg)) = (\<lambda>e. search_engines cfg e = None)"
    by (auto simp: dom_def)
  show ?thesis
    unfolding generate_search_links_def links_loop_dom links_loop_warnings links_loop_lookup f
    by (auto simp: requested_engines_def)
qed

text \<open>C9 for a request of an unknown and a known engine.\<close>

theorem C9_witness:
  "[''foo'', ''spotify''] \<noteq> [] \<and>
   ''spotify'' \<in> set (requested_engines DEFAULT_CONFIG (Some [''foo'', ''spotify''])) \<and>
   search_engines DEFAULT_CONFIG ''spotify'' = Some [Lit ''https://open.spotify.com/search/'', Query] \<and>
   fst (generate_search_links DEFAULT_CONFIG ''abbey road'' (Some [''foo'', ''spotify''])) ''spotify''
     = Some ''https://open.spotify.com/search/abbey+road'' \<and>
   snd (generate_search_links DEFAULT_CONFIG ''abbey road'' (Some [''foo'', ''spotify'']))
     = [''Unknown search engine: foo'']"
proof -
  note inst = C9_links_of_known_engines[of DEFAULT_CONFIG "''abbey road''" "Some [''foo'', ''spotify'']" "[''foo'', ''spotify'']"]
  have ne: "[''foo'', ''spotify''] \<noteq> ([] :: string list)" by simp
  from inst ne have req: "requested_engines DEFAULT_CONFIG (Some [''foo'', ''spotify'']) = [''foo'', ''spotify'']"
    by blast
  then have mem: "''spotify'' \<in> set (requested_engines DEFAULT_CONFIG (Some [''foo'', ''spotify'']))"
    by simp
  have reg: "search_engines DEFAULT_CONFIG ''spotify'' = Some [Lit ''https://open.spotify.com/search/'', Query]"
    by code_simp
  from inst mem reg have
    "fst (generate_search_links DEFAULT_CONFIG ''abbey road'' (Some [''foo'', ''spotify''])) ''spotify''
       = Some (format_query [Lit ''https://open.spotify.com/search/'', Query] (quote_plus ''abbey road''))"
    by blast
  moreover have "format_query [Lit ''https://open.spotify.com/search/'', Query] (quote_plus ''abbey road'')
       = ''https://open.spotify.com/search/abbey+road''"
    by code_simp
  ultimately have link:
    "fst (generate_search_links DEFAULT_CONFIG ''abbey road'' (Some [''foo'', ''spotify''])) ''spotify''
       = Some ''https://open.spotify.com/search/abbey+road''"
    by simp
  have w: "snd (generate_search_links DEFAULT_CONFIG ''abbey road'' (Some [''foo'', ''spotify'']))
     = [''Unknown search engine: foo'']"
    by code_simp
  from ne mem reg link w show ?thesis by blast
qed

section \<open>Record pipeline\<close>

lemma check_columns_unresolved:
  "\<not> truthy a \<or> \<not> truthy t \<Longrightarrow> check_columns df a t = Inl (ColumnsNotFound (columns df))"
  by (simp add: check_columns_def)

lemma resolve_truthy_fst:
  "truthy (fst (resolve_columns cfg df artist_col title_col))
     \<longleftrightarrow> truthy artist_col \<or> truthy (fst (detect_columns cfg df))"
  by (auto simp: resolve_columns_def py_or_def split: prod.splits)

lemma resolve_truthy_snd:
  "truthy (snd (resolve_columns cfg df artist_col title_col))
     \<longleftrightarrow> truthy title_col \<or> truthy (snd (detect_columns cfg df))"
  by (auto simp: resolve_columns_def py_or_def split: prod.splits)

lemma resolve_explicit_fst:
  "truthy artist_col \<Longrightarrow> fst (resolve_columns cfg df artist_col title_col) = artist_col"
  by (auto simp: resolve_columns_def py_or_def split: prod.splits)

lemma resolve_explicit_snd:
  "truthy title_col \<Longrightarrow> snd (resolve_columns cfg df artist_col title_col) = title_col"
  by (auto simp: resolve_columns_def py_or_def split: prod.splits)

lemma first_column_in: "first_column cols cands = Some c \<Longrightarrow> c \<in> set cols"
  by (induction cands) (auto split: if_splits)

lemma resolve_detected_fst:
  "\<not> truthy artist_col \<Longrightarrow> fst (resolve_columns cfg df artist_col title_col) = Some a
     \<Longrightarrow> a \<in> set (columns df)"
  by (auto simp: resolve_columns_def py_or_def detect_columns_def dest: first_column_in)

lemma resolve_detected_snd:
  "\<not> truthy title_col \<Longrightarrow> snd (resolve_columns cfg df artist_col title_col) = Some t
     \<Longrightarrow> t \<in> set (columns df)"
  by (auto simp: resolve_columns_def py_or_def detect_columns_def dest: first_column_in)

lemma process_dataframe_check_fails:
  "check_columns df (fst (resolve_columns cfg df artist_col title_col))
      (snd (resolve_columns cfg df artist_col title_col)) = Inl e
   \<Longrightarrow> process_dataframe cfg df artist_col title_col engines = \<lparr>frame = df, raised = Some e\<rparr>"
  by (cases "resolve_columns cfg df artist_col title_col") (simp add: process_dataframe_def)

text \<open>
  C1, as stated, fails where a supplied column is absent from the schema and the other
  role resolves: the error raised names the missing column and does not report the
  available schema.
\<close>

theorem C1_counterexample:
  "explicit_absent discogs (Some (codes ''Band'')) None \<and>
   raised (process_dataframe DEFAULT_CONFIG discogs (Some (codes ''Band'')) None None)
     = Some (ArtistColumnNotFound (codes ''Band'')) \<and>
   reported_schema (ArtistColumnNotFound (codes ''Band'')) = None"
  by code_simp

text \<open>
  C1, amended. If a role is unresolved, or a supplied column is absent from the schema,
  \<^verbatim>\<open>process_dataframe\<close> raises a \<^verbatim>\<open>ValueError\<close> and leaves the table as it was: no
  keyword or link field is added. When a role is unresolved the message reports the
  available schema; otherwise it names the supplied column that is absent.
\<close>

theorem C1_schema_error:
  assumes "unresolved cfg df artist_col title_col \<or> explicit_absent df artist_col title_col"
  shows "frame (process_dataframe cfg df artist_col title_col engines) = df \<and>
    (if unresolved cfg df artist_col title_col
     then raised (process_dataframe cfg df artist_col title_col engines)
            = Some (ColumnsNotFound (columns df))
     else (\<exists>a. artist_col = Some a \<and> a \<notin> set (columns df) \<and>
             raised (process_dataframe cfg df artist_col title_col engines)
               = Some (ArtistColumnNotFound a)) \<or>
          (\<exists>t. title_col = Some t \<and> t \<notin> set (columns df) \<and>
             raised (process_dataframe cfg df artist_col title_col engines)
               = Some (TitleColumnNotFound t)))"
proof -
  define a' where "a' = fst (resolve_columns cfg df artist_col title_col)"
  define t' where "t' = snd (resolve_columns cfg df artist_col title_col)"
  note fails = process_dataframe_check_fails[of df cfg artist_col title_col, folded a'_def t'_def]
  show ?thesis
  proof (cases "unresolved cfg df artist_col title_col")
    case True
    then have "\<not> truthy a' \<or> \<not> truthy t'"
      unfolding a'_def t'_def resolve_truthy_fst resolve_truthy_snd unresolved_def by blast
    then have "check_columns df a' t' = Inl (ColumnsNotFound (columns df))"
      by (rule check_columns_unresolved)
    from fails[OF this] True show ?thesis by simp
  next
    case False
    then have tr: "truthy a'" "truthy t'"
      unfolding a'_def t'_def resolve_truthy_fst resolve_truthy_snd unresolved_def by blast+
    then obtain a t where at: "a' = Some a" "t' = Some t"
      by (auto simp: truthy_def split: option.splits)
    from False assms have ab: "absent_from df artist_col \<or> absent_from df title_col"
      by (simp add: explicit_absent_def)
    show ?thesis
    proof (cases "a \<in> set (columns df)")
      case artist_missing: False
      have "truthy artist_col"
      proof (rule ccontr)
        assume "\<not> truthy artist_col"
        from resolve_detected_fst[OF this] at(1) have "a \<in> set (columns df)"
          by (simp add: a'_def)
        with artist_missing show False by simp
      qed
      from resolve_explicit_fst[OF this] at(1) have "artist_col = Some a"
        by (simp add: a'_def)
      moreover have "check_columns df a' t' = Inl (ArtistColumnNotFound a)"
        using tr at artist_missing by (simp add: check_columns_def)
      from fails[OF this] have
        "process_dataframe cfg df artist_col title_col engines
           = \<lparr>frame = df, raised = Some (ArtistColumnNotFound a)\<rparr>" .
      ultimately show ?thesis using False artist_missing by simp
    next
      case True
      have "\<not> absent_from df artist_col"
      proof
        assume abs: "absent_from df artist_col"
        then have "truthy artist_col"
          by (auto simp: absent_from_def truthy_def split: option.splits)
        from resolve_explicit_fst[OF this] at(1) have "artist_col = Some a"
          by (simp add: a'_def)
        with abs True show False by (simp add: absent_from_def)
      qed
      with ab have abs: "absent_from df title_col" by simp
      then have "truthy title_col"
        by (auto simp: absent_from_def truthy_def split: option.splits)
      from resolve_explicit_snd[OF this] at(2) have tc: "title_col = Some t"
        by (simp add: t'_def)
      with abs have miss: "t \<notin> set (columns df)" by (simp add: absent_from_def)
      have "check_columns df a' t' = Inl (TitleColumnNotFound t)"
        using tr at True miss by (simp add: check_columns_def)
      from fails[OF this] have
        "process_dataframe cfg df artist_col title_col engines
           = \<lparr>frame = df, raised = Some (TitleColumnNotFound t)\<rparr>" .
      with tc miss False show ?thesis by simp
    qed
  qed
qed

text \<open>C1 for a table whose columns are not among the candidates, and for a supplied column that is absent.\<close>

theorem C1_witness:
  "unresolved DEFAULT_CONFIG custom None None \<and>
   frame (process_dataframe DEFAULT_CONFIG custom None None None) = custom \<and>
   raised (process_dataframe DEFAULT_CONFIG custom None None None)
     = Some (ColumnsNotFound [codes ''Band Name'', codes ''Album Title'']) \<and>
   explicit_absent discogs (Some (codes ''Band'')) None \<and>
   \<not> unresolved DEFAULT_CONFIG discogs (Some (codes ''Band'')) None \<and>
   frame (process_dataframe DEFAULT_CONFIG discogs (Some (codes ''Band'')) None None) = discogs \<and>
   raised (process_dataframe DEFAULT_CONFIG discogs (Some (codes ''Band'')) None None)
     = Some (ArtistColumnNotFound (codes ''Band''))"
proof -
  have u: "unresolved DEFAULT_CONFIG custom None None" by code_simp
  have c: "columns custom = [codes ''Band Name'', codes ''Album Title'']" by code_simp
  have e: "explicit_absent discogs (Some (codes ''Band'')) None" by code_simp
  have r: "\<not> unresolved DEFAULT_CONFIG discogs (Some (codes ''Band'')) None" by code_simp
  from u C1_schema_error[of DEFAULT_CONFIG custom None None None] c
  have first: "frame (process_dataframe DEFAULT_CONFIG custom None None None) = custom \<and>
     raised (process_dataframe DEFAULT_CONFIG custom None None None)
       = Some (ColumnsNotFound [codes ''Band Name'', codes ''Album Title''])"
    by simp
  from e r C1_schema_error[of DEFAULT_CONFIG discogs "Some (codes ''Band'')" None None]
  have second: "frame (process_dataframe DEFAULT_CONFIG discogs (Some (codes ''Band'')) None None) = discogs \<and>
     raised (process_dataframe DEFAULT_CONFIG discogs (Some (codes ''Band'')) None None)
       = Some (ArtistColumnNotFound (codes ''Band''))"
    by simp
  from u e r first second show ?thesis by blast
qed

lemma matching_Nil: "matching df n = [] \<longleftrightarrow> n \<notin> set (columns df)"
  by (induction df) (auto simp: matching_def columns_def)

lemma matching_distinct:
  "distinct (columns df) \<Longrightarrow> n \<in> set (columns df) \<Longrightarrow> \<exists>vs. matching df n = [vs]"
proof (induction df)
  case Nil
  then show ?case by (simp add: columns_def)
next
  case (Cons p df)
  obtain m vs where p: "p = (m, vs)" by (cases p)
  show ?case
  proof (cases "m = n")
    case True
    with Cons.prems(1) p have "n \<notin> set (columns df)" by (simp add: columns_def)
    then have "matching df n = []" by (simp add: matching_Nil)
    with True p show ?thesis by (simp add: matching_def)
  next
    case False
    with Cons.prems p have "distinct (columns df)" "n \<in> set (columns df)"
      by (simp_all add: columns_def)
    from Cons.IH[OF this] False p show ?thesis by (simp add: matching_def)
  qed
qed

lemma get_column_Missing: "get_column df n = Missing \<longleftrightarrow> n \<notin> set (columns df)"
  unfolding matching_Nil[symmetric] get_column_def by (simp split: list.splits)

lemma get_column_distinct:
  "distinct (columns df) \<Longrightarrow> n \<in> set (columns df) \<Longrightarrow> \<exists>vs. get_column df n = Series vs"
  using matching_distinct[of df n] by (auto simp: get_column_def)

lemma columns_set_column:
  "columns (set_column n vs df) = (if n \<in> set (columns df) then columns df else columns df @ [n])"
proof -
  have "map fst (map (\<lambda>(m, old). if m = n then (m, vs) else (m, old)) df) = map fst df"
    by (induction df) auto
  then show ?thesis by (simp add: set_column_def columns_def)
qed

lemma distinct_set_column: "distinct (columns df) \<Longrightarrow> distinct (columns (set_column n vs df))"
  by (simp add: columns_set_column)

lemma matching_replaced:
  "matching (map (\<lambda>(k, old). if k = n then (k, vs) else (k, old)) df) m
     = (if m = n then map (\<lambda>old. vs) (matching df n) else matching df m)"
  by (induction df) (auto simp: matching_def)

lemma matching_appended:
  "matching (df @ [(n, vs)]) m = (if m = n then matching df n @ [vs] else matching df m)"
  by (auto simp: matching_def)

lemma get_set_column:
  assumes "distinct (columns df)"
  shows "get_column (set_column n vs df) m = (if m = n then Series vs else get_column df m)"
proof (cases "m = n")
  case False
  then have "matching (set_column n vs df) m = matching df m"
    by (simp add: set_column_def matching_replaced matching_appended)
  with False show ?thesis by (simp add: get_column_def)
next
  case True
  have "matching (set_column n vs df) n = [vs]"
  proof (cases "n \<in> set (columns df)")
    case True
    from matching_distinct[OF assms True] obtain old where "matching df n = [old]" by blast
    with True show ?thesis by (simp add: set_column_def matching_replaced)
  next
    case False
    then have "matching df n = []" by (simp add: matching_Nil)
    with False show ?thesis by (simp add: set_column_def matching_appended)
  qed
  with True show ?thesis by (simp add: get_column_def)
qed

lemma last_codes_Link: "last (xs @ codes ''_Link'') = 107"
  by (simp add: codes_def code_def)

lemma link_name_not_Keywords: "link_name e \<noteq> codes ''Keywords''"
proof
  assume "link_name e = codes ''Keywords''"
  then have "last (str_title e @ codes ''_Link'') = last (codes ''Keywords'')"
    by (simp add: link_name_def)
  then show False unfolding last_codes_Link by (simp add: codes_def code_def)
qed

lemma Keywords_not_Search_Link: "codes ''Keywords'' \<noteq> codes ''Search_Link''"
  by (simp add: codes_def code_def)

lemma single_link:
  "(case fst (generate_search_links cfg kw (Some [e])) e of Some url \<Rightarrow> url | None \<Rightarrow> [])
     = link_for cfg e kw"
  by (simp add: generate_search_links_def requested_engines_def link_for_def split: option.splits)

lemma link_cells_all:
  "link_cells cfg e (map Some ks) = Inr (map (\<lambda>k. Some (link_for cfg e k)) ks)"
  by (induction ks) (simp_all add: single_link Let_def)

lemma field_engine_None: "field_engine es n = None \<longleftrightarrow> (\<forall>e\<in>set es. link_name e \<noteq> n)"
  by (induction es) (auto split: option.splits)

lemma field_engine_Some: "field_engine es n = Some e \<Longrightarrow> e \<in> set es \<and> link_name e = n"
  by (induction es) (auto split: option.splits if_splits)

lemma add_link_columns_frame:
  assumes "distinct (columns df)" "get_column df (codes ''Keywords'') = Series (map Some ks)"
  shows "raised (add_link_columns cfg es df) = None \<and>
    distinct (columns (frame (add_link_columns cfg es df))) \<and>
    (\<forall>n. get_column (frame (add_link_columns cfg es df)) n =
       (case field_engine es n of
          Some e \<Rightarrow> Series (map (\<lambda>k. Some (link_for cfg e k)) ks)
        | None \<Rightarrow> get_column df n))"
  using assms
proof (induction es arbitrary: df)
  case Nil
  then show ?case by simp
next
  case (Cons e es)
  define df' where "df' = set_column (link_name e) (map (\<lambda>k. Some (link_for cfg e k)) ks) df"
  have step: "add_link_columns cfg (e # es) df = add_link_columns cfg es df'"
    using Cons.prems(2) by (simp add: link_cells_all df'_def)
  have d: "distinct (columns df')"
    unfolding df'_def using Cons.prems(1) by (rule distinct_set_column)
  have look: "get_column df' n =
      (if n = link_name e then Series (map (\<lambda>k. Some (link_for cfg e k)) ks) else get_column df n)" for n
    unfolding df'_def using Cons.prems(1) by (rule get_set_column)
  have "get_column df' (codes ''Keywords'') = Series (map Some ks)"
    using Cons.prems(2) link_name_not_Keywords[of e] by (simp add: look)
  from Cons.IH[OF d this] show ?case
    unfolding step by (auto simp: look split: option.splits)
qed

lemma requested_engines_nonempty: "requested_engines cfg engines \<noteq> []"
  by (simp add: requested_engines_def split: option.splits)

lemma check_columns_resolved:
  assumes "\<not> unresolved cfg df artist_col title_col" "\<not> explicit_absent df artist_col title_col"
  shows "\<exists>a t. check_columns df (fst (resolve_columns cfg df artist_col title_col))
             (snd (resolve_columns cfg df artist_col title_col)) = Inr (a, t) \<and>
           a \<in> set (columns df) \<and> t \<in> set (columns df)"
proof -
  define a' where "a' = fst (resolve_columns cfg df artist_col title_col)"
  define t' where "t' = snd (resolve_columns cfg df artist_col title_col)"
  from assms(1) have tr: "truthy a'" "truthy t'"
    unfolding a'_def t'_def resolve_truthy_fst resolve_truthy_snd unresolved_def by blast+
  then obtain a t where at: "a' = Some a" "t' = Some t" and ne: "a \<noteq> []" "t \<noteq> []"
    by (auto simp: truthy_def split: option.splits)
  have a: "a \<in> set (columns df)"
  proof (cases "truthy artist_col")
    case True
    from resolve_explicit_fst[OF this] at(1) have "artist_col = Some a" by (simp add: a'_def)
    with assms(2) ne show ?thesis by (simp add: explicit_absent_def absent_from_def)
  next
    case False
    from resolve_detected_fst[OF this] at(1) show ?thesis by (simp add: a'_def)
  qed
  have t: "t \<in> set (columns df)"
  proof (cases "truthy title_col")
    case True
    from resolve_explicit_snd[OF this] at(2) have "title_col = Some t" by (simp add: t'_def)
    with assms(2) ne show ?thesis by (simp add: explicit_absent_def absent_from_def)
  next
    case False
    from resolve_detected_snd[OF this] at(2) show ?thesis by (simp add: t'_def)
  qed
  have "check_columns df a' t' = Inr (a, t)"
    using tr at a t by (simp add: check_columns_def)
  with a t show ?thesis unfolding a'_def t'_def by blast
qed

lemma keywords_column_present:
  assumes "distinct (columns df)" "a \<in> set (columns df)" "t \<in> set (columns df)"
  shows "\<exists>ks. keywords_column cfg df a t = Inr (map Some ks)"
proof -
  from get_column_distinct[OF assms(1,2)] get_column_distinct[OF assms(1,3)]
  obtain as ts where c: "get_column df a = Series as" "get_column df t = Series ts"
    by blast
  have m: "map (\<lambda>(artist, title). Some (generate_keywords cfg artist title None)) (zip as ts)
      = map Some (map (\<lambda>(artist, title). generate_keywords cfg artist title None) (zip as ts))"
    by (simp add: case_prod_unfold)
  have "keywords_column cfg df a t
      = Inr (map (\<lambda>(artist, title). Some (generate_keywords cfg artist title None)) (zip as ts))"
    using c by (simp add: keywords_column_def)
  then show ?thesis unfolding m by blast
qed

lemma process_dataframe_frame:
  assumes "distinct (columns df)"
    and "\<not> unresolved cfg df artist_col title_col" "\<not> explicit_absent df artist_col title_col"
  shows "\<exists>ks primary.
    raised (process_dataframe cfg df artist_col title_col engines) = None \<and>
    field_engine (requested_engines cfg engines) (link_name (hd (requested_engines cfg engines)))
      = Some primary \<and>
    (\<forall>n. get_column (frame (process_dataframe cfg df artist_col title_col engines)) n =
       (if n = codes ''Search_Link'' then Series (map (\<lambda>k. Some (link_for cfg primary k)) ks)
        else case field_engine (requested_engines cfg engines) n of
               Some e \<Rightarrow> Series (map (\<lambda>k. Some (link_for cfg e k)) ks)
             | None \<Rightarrow> if n = codes ''Keywords'' then Series (map Some ks) else get_column df n))"
proof -
  define es where "es = requested_engines cfg engines"
  from check_columns_resolved[OF assms(2,3)] obtain a t where
    chk: "check_columns df (fst (resolve_columns cfg df artist_col title_col))
             (snd (resolve_columns cfg df artist_col title_col)) = Inr (a, t)"
    and at: "a \<in> set (columns df)" "t \<in> set (columns df)" by blast
  from keywords_column_present[OF assms(1) at] obtain ks where
    kw: "keywords_column cfg df a t = Inr (map Some ks)" by blast
  define df1 where "df1 = set_column (codes ''Keywords'') (map Some ks) df"
  define linked where "linked = add_link_columns cfg es df1"
  have look1: "get_column df1 n = (if n = codes ''Keywords'' then Series (map Some ks) else get_column df n)"
    for n unfolding df1_def using assms(1) by (rule get_set_column)
  have d1: "distinct (columns df1)"
    unfolding df1_def using assms(1) by (rule distinct_set_column)
  have k1: "get_column df1 (codes ''Keywords'') = Series (map Some ks)"
    by (simp add: look1)
  note al = add_link_columns_frame[OF d1 k1, of cfg es, folded linked_def]
  from al have ok: "raised linked = None" by blast
  from al have dl: "distinct (columns (frame linked))" by blast
  from al have look: "get_column (frame linked) n =
       (case field_engine es n of
          Some e \<Rightarrow> Series (map (\<lambda>k. Some (link_for cfg e k)) ks)
        | None \<Rightarrow> get_column df1 n)" for n by blast
  have run: "process_dataframe cfg df artist_col title_col engines = add_search_link es (frame linked)"
    using chk kw ok
    by (cases "resolve_columns cfg df artist_col title_col")
      (simp add: process_dataframe_def Let_def es_def df1_def linked_def)
  obtain p rest where es: "es = p # rest"
    using requested_engines_nonempty[of cfg engines] unfolding es_def by (cases "requested_engines cfg engines") auto
  have "field_engine es (link_name p) \<noteq> None"
    unfolding field_engine_None using es by simp
  then obtain primary where pr: "field_engine es (link_name p) = Some primary"
    by (cases "field_engine es (link_name p)") auto
  with look[of "link_name p"] have
    lp: "get_column (frame linked) (link_name p) = Series (map (\<lambda>k. Some (link_for cfg primary k)) ks)"
    by simp
  have fin: "add_search_link es (frame linked) =
      \<lparr>frame = set_column (codes ''Search_Link'') (map (\<lambda>k. Some (link_for cfg primary k)) ks) (frame linked),
       raised = None\<rparr>"
    using es lp by (simp add: add_search_link_def)
  have "\<forall>n. get_column (frame (process_dataframe cfg df artist_col title_col engines)) n =
       (if n = codes ''Search_Link'' then Series (map (\<lambda>k. Some (link_for cfg primary k)) ks)
        else case field_engine es n of
               Some e \<Rightarrow> Series (map (\<lambda>k. Some (link_for cfg e k)) ks)
             | None \<Rightarrow> if n = codes ''Keywords'' then Series (map Some ks) else get_column df n)"
    unfolding run fin by (simp add: get_set_column[OF dl] look look1 split: option.splits)
  moreover have "raised (process_dataframe cfg df artist_col title_col engines) = None"
    unfolding run fin by simp
  moreover have "field_engine es (link_name (hd es)) = Some primary"
    using pr es by simp
  ultimately show ?thesis unfolding es_def by blast
qed

text \<open>
  Two checks of the model on inputs off the usual path: an artist name shared by two
  columns makes the guard of \<^verbatim>\<open>clean_text\<close> raise before any field is added, and the
  link column of the engine id made of the micro sign is named by the Greek capital mu.
\<close>

lemma repeated_artist_column_raises:
  "process_dataframe DEFAULT_CONFIG ((codes ''Artist'', [Some ''Abba'', Some ''Beck'']) # discogs)
     None None None
   = \<lparr>frame = (codes ''Artist'', [Some ''Abba'', Some ''Beck'']) # discogs,
      raised = Some AmbiguousSeries\<rparr>"
  by code_simp

lemma micro_sign_link_name: "link_name [CHR 0xB5] = 924 # codes ''_Link''"
  by code_simp

text \<open>
  C10, as stated, fails when two requested engines have one field name: for the request
  of "Wikipedia", absent from the registry, followed by "wikipedia", the field
  \<^verbatim>\<open>Wikipedia_Link\<close> and with it \<^verbatim>\<open>Search_Link\<close> hold the links of the second
  engine, not empty strings.
\<close>

theorem C10_counterexample:
  "search_engines DEFAULT_CONFIG ''Wikipedia'' = None \<and>
   get_column (frame (process_dataframe DEFAULT_CONFIG discogs None None
                        (Some [''Wikipedia'', ''wikipedia'']))) (codes ''Search_Link'')
     = Series [Some ''https://en.wikipedia.org/wiki/Special:Search?search=queen+night+opera'',
             Some ''https://en.wikipedia.org/wiki/Special:Search?search=nirvana+nevermind''] \<and>
   \<not> empty_links (frame (process_dataframe DEFAULT_CONFIG discogs None None
                        (Some [''Wikipedia'', ''wikipedia'']))) (link_name ''Wikipedia'')"
  by code_simp

text \<open>
  C10, amended. For a table whose column names are pairwise distinct and whose artist
  and title columns resolve, \<^verbatim>\<open>process_dataframe\<close> raises nothing and adds a link
  field for every requested engine, also for the engines absent from the registry, and
  the field \<^verbatim>\<open>Search_Link\<close>. A link field other than \<^verbatim>\<open>Search_Link\<close> holds the
  empty string for every record when no requested engine with that field name is in the
  registry; \<^verbatim>\<open>Search_Link\<close> holds the empty string for every record when no requested
  engine with the field name of the first requested engine is in the registry.
\<close>

theorem C10_link_fields:
  assumes "distinct (columns df)"
    and "\<not> unresolved cfg df artist_col title_col"
    and "\<not> explicit_absent df artist_col title_col"
  shows "raised (process_dataframe cfg df artist_col title_col engines) = None \<and>
    (\<forall>e\<in>set (requested_engines cfg engines).
       link_name e \<in> set (columns (frame (process_dataframe cfg df artist_col title_col engines)))) \<and>
    (codes ''Search_Link'') \<in> set (columns (frame (process_dataframe cfg df artist_col title_col engines))) \<and>
    (\<forall>e\<in>set (requested_engines cfg engines).
       link_name e \<noteq> (codes ''Search_Link'') \<and> none_known cfg (requested_engines cfg engines) (link_name e) \<longrightarrow>
       empty_links (frame (process_dataframe cfg df artist_col title_col engines)) (link_name e)) \<and>
    (none_known cfg (requested_engines cfg engines) (link_name (hd (requested_engines cfg engines))) \<longrightarrow>
       empty_links (frame (process_dataframe cfg df artist_col title_col engines)) (codes ''Search_Link''))"
proof -
  define es where "es = requested_engines cfg engines"
  define r where "r = process_dataframe cfg df artist_col title_col engines"
  define col where "col = (\<lambda>ks e. map (\<lambda>k. Some (link_for cfg e k)) ks)"
  from process_dataframe_frame[OF assms, of engines, folded es_def r_def] obtain ks primary where
    ok: "raised r = None" and
    pr: "field_engine es (link_name (hd es)) = Some primary" and
    look: "\<And>n. get_column (frame r) n =
       (if n = (codes ''Search_Link'') then Series (col ks primary)
        else case field_engine es n of
               Some e \<Rightarrow> Series (col ks e)
             | None \<Rightarrow> if n = (codes ''Keywords'') then Series (map Some ks) else get_column df n)"
    unfolding col_def by blast
  have unknown: "col ks e = map (\<lambda>kw. Some []) (map Some ks)"
    if "field_engine es n = Some e" "none_known cfg es n" for e n
  proof -
    from field_engine_Some[OF that(1)] that(2) have "search_engines cfg e = None"
      by (auto simp: none_known_def list_all_iff)
    then show ?thesis by (simp add: col_def link_for_def)
  qed
  have "field_engine es (codes ''Keywords'') = None"
    by (simp add: field_engine_None link_name_not_Keywords)
  then have kw: "get_column (frame r) (codes ''Keywords'') = Series (map Some ks)"
    by (simp add: look Keywords_not_Search_Link)
  have present: "link_name e \<in> set (columns (frame r))" if "e \<in> set es" for e
  proof -
    from that have "field_engine es (link_name e) \<noteq> None"
      unfolding field_engine_None by blast
    then have "get_column (frame r) (link_name e) \<noteq> Missing"
      by (auto simp: look)
    then show ?thesis by (simp add: get_column_Missing)
  qed
  have sl: "(codes ''Search_Link'') \<in> set (columns (frame r))"
  proof -
    have "get_column (frame r) (codes ''Search_Link'') \<noteq> Missing" by (simp add: look)
    then show ?thesis by (simp add: get_column_Missing)
  qed
  have empty: "empty_links (frame r) (link_name e)"
    if "e \<in> set es" "link_name e \<noteq> (codes ''Search_Link'')" "none_known cfg es (link_name e)" for e
  proof -
    from that(1) have "field_engine es (link_name e) \<noteq> None"
      unfolding field_engine_None by blast
    then obtain e' where e': "field_engine es (link_name e) = Some e'"
      by (cases "field_engine es (link_name e)") auto
    have "get_column (frame r) (link_name e) = Series (col ks e')"
      using look[of "link_name e"] e' that(2) by simp
    then have "get_column (frame r) (link_name e) = Series (map (\<lambda>kw. Some []) (map Some ks))"
      unfolding unknown[OF e' that(3)] .
    then show ?thesis unfolding empty_links_def kw by simp
  qed
  have primary_empty: "empty_links (frame r) (codes ''Search_Link'')"
    if "none_known cfg es (link_name (hd es))"
  proof -
    have "get_column (frame r) (codes ''Search_Link'') = Series (col ks primary)"
      using look[of "codes ''Search_Link''"] by simp
    then have "get_column (frame r) (codes ''Search_Link'') = Series (map (\<lambda>kw. Some []) (map Some ks))"
      unfolding unknown[OF pr that] .
    then show ?thesis unfolding empty_links_def kw by simp
  qed
  from ok present sl empty primary_empty show ?thesis
    unfolding es_def r_def by blast
qed

text \<open>C10 for a request whose first engine is unknown.\<close>

theorem C10_witness:
  "distinct (columns discogs) \<and>
   \<not> unresolved DEFAULT_CONFIG discogs None None \<and>
   \<not> explicit_absent discogs None None \<and>
   ''foo'' \<in> set (requested_engines DEFAULT_CONFIG (Some [''foo'', ''spotify''])) \<and>
   link_name ''foo'' \<noteq> (codes ''Search_Link'') \<and>
   none_known DEFAULT_CONFIG (requested_engines DEFAULT_CONFIG (Some [''foo'', ''spotify''])) (link_name ''foo'') \<and>
   none_known DEFAULT_CONFIG (requested_engines DEFAULT_CONFIG (Some [''foo'', ''spotify'']))
     (link_name (hd (requested_engines DEFAULT_CONFIG (Some [''foo'', ''spotify''])))) \<and>
   raised (process_dataframe DEFAULT_CONFIG discogs None None (Some [''foo'', ''spotify''])) = None \<and>
   empty_links (frame (process_dataframe DEFAULT_CONFIG discogs None None (Some [''foo'', ''spotify''])))
     (link_name ''foo'') \<and>
   empty_links (frame (process_dataframe DEFAULT_CONFIG discogs None None (Some [''foo'', ''spotify''])))
     (codes ''Search_Link'')"
proof -
  have h0: "distinct (columns discogs)" by code_simp
  have h1: "\<not> unresolved DEFAULT_CONFIG discogs None None" by code_simp
  have h2: "\<not> explicit_absent discogs None None" by code_simp
  have h3: "''foo'' \<in> set (requested_engines DEFAULT_CONFIG (Some [''foo'', ''spotify'']))"
    by (simp add: requested_engines_def)
  have h4: "link_name ''foo'' \<noteq> (codes ''Search_Link'')" by code_simp
  have h5: "none_known DEFAULT_CONFIG (requested_engines DEFAULT_CONFIG (Some [''foo'', ''spotify'']))
     (link_name ''foo'')" by code_simp
  have h6: "none_known DEFAULT_CONFIG (requested_engines DEFAULT_CONFIG (Some [''foo'', ''spotify'']))
     (link_name (hd (requested_engines DEFAULT_CONFIG (Some [''foo'', ''spotify'']))))" by code_simp
  note inst = C10_link_fields[OF h0 h1 h2, of "Some [''foo'', ''spotify'']"]
  from inst have c1: "raised (process_dataframe DEFAULT_CONFIG discogs None None (Some [''foo'', ''spotify''])) = None"
    by blast
  from inst h3 h4 h5 have c2:
    "empty_links (frame (process_dataframe DEFAULT_CONFIG discogs None None (Some [''foo'', ''spotify''])))
     (link_name ''foo'')" by blast
  from inst h6 have c3:
    "empty_links (frame (process_dataframe DEFAULT_CONFIG discogs None None (Some [''foo'', ''spotify''])))
     (codes ''Search_Link'')" by blast
  from h0 h1 h2 h3 h4 h5 h6 c1 c2 c3 show ?thesis by blast
qed

end
